theory Spec2Isabelle
  imports Main "HOL-Library.Word"
begin

section \<open>Data model of check/controls.go\<close>

text \<open>
  Modelled from the spec: the State type and its constants PASS, FAIL, WARN, INFO and SKIP
  are declared outside controls.go. The specification gives the state as these five
  values; the three \<open>summarize\<close> switches name them and have no default branch, so every
  other value (such as the empty state of a freshly loaded check) is kept as \<open>OtherState\<close>
  and is a no-op for them.
\<close>

datatype State = PASS | FAIL | WARN | INFO | SKIP | OtherState string

text \<open>
  Go's \<open>[]*Group\<close> and \<open>[]*Check\<close> are slices of pointers: a group or a check is
  mutated through its pointer, and the same pointer may sit in a slice twice. Pointers are
  addresses into two heaps (lists, the address is the index); an address outside the heap
  stands for nil, and dereferencing it is a panic. Only RunChecks allocates: a new group
  goes to the end of the heap of groups.
\<close>

type_synonym addr = nat

text \<open>
  Modelled from the spec: the Check struct and NodeType are declared outside controls.go.
  Check has the fields that controls.go reads or writes, with the types their uses give
  them; \<open>'cmd\<close> is exec.Cmd; NodeType is a string type.
\<close>

record 'cmd Check =
  cID :: string
  cAudit :: string
  cCommands :: "'cmd list"
  cRemediation :: string
  CheckCISLevel :: string
  cState :: State
  cTestInfo :: "string list"

text \<open>
  The counters are Go \<open>int\<close>s, 64 bits wide on the platforms the program is built
  for. The counters of a Group are never reset and can be set by the catalog, so they are
  64-bit words: \<open>+ 1\<close> wraps, \<open>sint\<close> reads the signed value. The counters of a
  Summary (the global one and the entries of the level-keyed map) are set to zero when a
  run starts and grow by at most one for each check execution of that run, which keeps
  them \<open>2^63\<close> executions away from the wrap: they are integers.
\<close>

record Group =
  gID :: string
  gPass :: "64 word"
  gFail :: "64 word"
  gWarn :: "64 word"
  gSkip :: "64 word"
  gInfo :: "64 word"
  gText :: string
  gChecks :: "addr list"

record Summary =
  Pass :: int
  Fail :: int
  Warn :: int
  Info :: int
  Skip :: int

record Controls =
  ID :: string
  Version :: string
  Text :: string
  Type :: string
  UserCISLevel :: string
  Groups :: "addr list"
  Summary :: Summary
  SummaryLevelWise :: "string \<rightharpoonup> Summary"

text \<open>
  The memory a run works on: the Controls object, the heap of groups, the heap of checks,
  and the host \<open>env\<close> that the audit commands of Check.Run read and change.
\<close>

record ('cmd, 'w) world =
  controls :: Controls
  groups :: "Group list"
  checks :: "'cmd Check list"
  env :: 'w

definition deref :: "'a list \<Rightarrow> addr \<Rightarrow> 'a option" where
  "deref heap a = (if a < length heap then Some (heap ! a) else None)"

text \<open>
  The errors of controls.go, which are built by \<open>fmt.Errorf\<close>: "failed to unmarshal
  YAML: ..." with the decoder's message, "non-... controls file specified" with the
  requested type, "error in parsing User CIS level", "error in parsing Check CIS level".
\<close>

datatype error =
    UnmarshalError string
  | TypeMismatchError string
  | UserLevelParseError
  | CheckLevelParseError

text \<open>A loop stops early on a returned error or on a nil-pointer panic.\<close>

datatype abort = Failed error | Panic

text \<open>What a run method gives its caller: \<open>(Summary, error)\<close>, or a panic.\<close>

datatype outcome = Returned Summary "error option" | Panicked

section \<open>strconv.ParseUint(s, 10, 64)\<close>

text \<open>
  The library function as RunGroup calls it: the empty string and any byte that is not a
  decimal digit are syntax errors, a value above \<open>2^64 - 1\<close> is a range error, found by
  the two overflow tests of the digit loop. RunGroup only asks whether there was an error,
  so both are \<open>None\<close>.
\<close>

definition maxVal :: nat where
  "maxVal = 2 ^ 64 - 1"

definition cutoff :: nat where
  "cutoff = maxVal div 10 + 1"

fun parseDigits :: "nat \<Rightarrow> string \<Rightarrow> nat option" where
  "parseDigits n [] = Some n"
| "parseDigits n (c # cs) =
     (if \<not> (48 \<le> (of_char c :: nat) \<and> (of_char c :: nat) \<le> 57) then None
      else if n \<ge> cutoff then None
      else let n1 = n * 10 + (of_char c - 48) in
        if n1 > maxVal then None else parseDigits n1 cs)"

definition ParseUint :: "string \<Rightarrow> nat option" where
  "ParseUint s = (if s = [] then None else parseDigits 0 s)"

section \<open>The three aggregation folds\<close>

definition summarize :: "Controls \<Rightarrow> 'cmd Check \<Rightarrow> Controls" where
  "summarize c check =
     (case cState check of
        PASS \<Rightarrow> c\<lparr>Summary := (Summary c)\<lparr>Pass := Pass (Summary c) + 1\<rparr>\<rparr>
      | FAIL \<Rightarrow> c\<lparr>Summary := (Summary c)\<lparr>Fail := Fail (Summary c) + 1\<rparr>\<rparr>
      | WARN \<Rightarrow> c\<lparr>Summary := (Summary c)\<lparr>Warn := Warn (Summary c) + 1\<rparr>\<rparr>
      | INFO \<Rightarrow> c\<lparr>Summary := (Summary c)\<lparr>Info := Info (Summary c) + 1\<rparr>\<rparr>
      | SKIP \<Rightarrow> c\<lparr>Summary := (Summary c)\<lparr>Skip := Skip (Summary c) + 1\<rparr>\<rparr>
      | OtherState _ \<Rightarrow> c)"

definition summarizeGroup :: "Group \<Rightarrow> 'cmd Check \<Rightarrow> Group" where
  "summarizeGroup g check =
     (case cState check of
        PASS \<Rightarrow> g\<lparr>gPass := gPass g + 1\<rparr>
      | FAIL \<Rightarrow> g\<lparr>gFail := gFail g + 1\<rparr>
      | WARN \<Rightarrow> g\<lparr>gWarn := gWarn g + 1\<rparr>
      | INFO \<Rightarrow> g\<lparr>gInfo := gInfo g + 1\<rparr>
      | SKIP \<Rightarrow> g\<lparr>gSkip := gSkip g + 1\<rparr>
      | OtherState _ \<Rightarrow> g)"

text \<open>
  \<open>control.SummaryLevelWise[check.CheckCISLevel].Pass++\<close>: the map holds pointers, a key
  that is not in the map yields nil, and the increment through nil panics (\<open>None\<close>).
\<close>

definition summarizeLevel :: "Controls \<Rightarrow> 'cmd Check \<Rightarrow> Controls option" where
  "summarizeLevel c check =
     (let m = SummaryLevelWise c; k = CheckCISLevel check in
      case cState check of
        PASS \<Rightarrow> (case m k of None \<Rightarrow> None
                 | Some e \<Rightarrow> Some (c\<lparr>SummaryLevelWise := m(k \<mapsto> e\<lparr>Pass := Pass e + 1\<rparr>)\<rparr>))
      | FAIL \<Rightarrow> (case m k of None \<Rightarrow> None
                 | Some e \<Rightarrow> Some (c\<lparr>SummaryLevelWise := m(k \<mapsto> e\<lparr>Fail := Fail e + 1\<rparr>)\<rparr>))
      | WARN \<Rightarrow> (case m k of None \<Rightarrow> None
                 | Some e \<Rightarrow> Some (c\<lparr>SummaryLevelWise := m(k \<mapsto> e\<lparr>Warn := Warn e + 1\<rparr>)\<rparr>))
      | INFO \<Rightarrow> (case m k of None \<Rightarrow> None
                 | Some e \<Rightarrow> Some (c\<lparr>SummaryLevelWise := m(k \<mapsto> e\<lparr>Info := Info e + 1\<rparr>)\<rparr>))
      | SKIP \<Rightarrow> (case m k of None \<Rightarrow> None
                 | Some e \<Rightarrow> Some (c\<lparr>SummaryLevelWise := m(k \<mapsto> e\<lparr>Skip := Skip e + 1\<rparr>)\<rparr>))
      | OtherState _ \<Rightarrow> Some c)"

section \<open>Start of a run\<close>

definition zeroSummary :: Summary where
  "zeroSummary = \<lparr>Pass = 0, Fail = 0, Warn = 0, Info = 0, Skip = 0\<rparr>"

text \<open>Lines 85 to 88 of RunGroup and 132 to 135 of RunChecks.\<close>

definition resetSummaries :: "Controls \<Rightarrow> Controls" where
  "resetSummaries c =
     c\<lparr>SummaryLevelWise := (Map.empty(''1'' \<mapsto> zeroSummary))(''2'' \<mapsto> zeroSummary),
       Summary := (Summary c)\<lparr>Pass := 0, Fail := 0, Warn := 0, Skip := 0, Info := 0\<rparr>\<rparr>"

fun getAllGroupIDs :: "Group list \<Rightarrow> addr list \<Rightarrow> string list option" where
  "getAllGroupIDs heap [] = Some []"
| "getAllGroupIDs heap (ga # gas) =
     (case deref heap ga of
        None \<Rightarrow> None
      | Some grp \<Rightarrow> map_option ((#) (gID grp)) (getAllGroupIDs heap gas))"

section \<open>RunGroup\<close>

text \<open>
  Modelled from the spec: Check.Run is outside controls.go. The specification has it as an
  opaque capability that, given a check, runs its audit procedure on the host and leaves
  the check with a state and evidence. It is the parameter \<open>Run\<close>, which takes the host
  and the check and gives the check as Run leaves it and the host after the audit.
\<close>

type_synonym ('cmd, 'w) runner = "'w \<Rightarrow> 'cmd Check \<Rightarrow> 'cmd Check \<times> 'w"

text \<open>Lines 105 to 116: the body of the loop over \<open>group.Checks\<close>.\<close>

definition runGroupCheck ::
  "('cmd, 'w) runner \<Rightarrow> nat \<Rightarrow> addr \<Rightarrow> addr \<Rightarrow> ('cmd, 'w) world \<Rightarrow> abort option \<times> ('cmd, 'w) world" where
  "runGroupCheck Run userCISLevel ga ca s =
     (case deref (checks s) ca of
        None \<Rightarrow> (Some Panic, s)
      | Some check \<Rightarrow>
          (case ParseUint (CheckCISLevel check) of
             None \<Rightarrow> (Some (Failed CheckLevelParseError), s)
           | Some checkCIS \<Rightarrow>
               (let check1 = (if userCISLevel < checkCIS then check\<lparr>cState := SKIP\<rparr> else check);
                    (check2, w) = Run (env s) check1;
                    check3 = check2\<lparr>cTestInfo := cTestInfo check2 @ [cRemediation check2]\<rparr>;
                    s1 = s\<lparr>checks := (checks s)[ca := check3], env := w\<rparr>;
                    s2 = s1\<lparr>controls := summarize (controls s1) check3\<rparr>
                in (case deref (groups s2) ga of
                      None \<Rightarrow> (Some Panic, s2)
                    | Some grp \<Rightarrow>
                        (let s3 = s2\<lparr>groups := (groups s2)[ga := summarizeGroup grp check3]\<rparr>
                         in (case summarizeLevel (controls s3) check3 of
                               None \<Rightarrow> (Some Panic, s3)
                             | Some c \<Rightarrow> (None, s3\<lparr>controls := c\<rparr>)))))))"

fun runGroupChecks ::
  "('cmd, 'w) runner \<Rightarrow> nat \<Rightarrow> addr \<Rightarrow> addr list \<Rightarrow> ('cmd, 'w) world \<Rightarrow> abort option \<times> ('cmd, 'w) world" where
  "runGroupChecks Run u ga [] s = (None, s)"
| "runGroupChecks Run u ga (ca # cas) s =
     (case runGroupCheck Run u ga ca s of
        (None, s') \<Rightarrow> runGroupChecks Run u ga cas s'
      | (Some a, s') \<Rightarrow> (Some a, s'))"

text \<open>Lines 102 to 121: the loop over \<open>gids\<close> for one group; \<open>g\<close> is the slice being rebuilt.\<close>

fun runGroupGids ::
  "('cmd, 'w) runner \<Rightarrow> nat \<Rightarrow> addr \<Rightarrow> string list \<Rightarrow> addr list \<Rightarrow> ('cmd, 'w) world
     \<Rightarrow> abort option \<times> addr list \<times> ('cmd, 'w) world" where
  "runGroupGids Run u ga [] g s = (None, g, s)"
| "runGroupGids Run u ga (gid # gids) g s =
     (case deref (groups s) ga of
        None \<Rightarrow> (Some Panic, g, s)
      | Some grp \<Rightarrow>
          if gid = gID grp then
            (case runGroupChecks Run u ga (gChecks grp) s of
               (None, s') \<Rightarrow> runGroupGids Run u ga gids (g @ [ga]) s'
             | (Some a, s') \<Rightarrow> (Some a, g, s'))
          else runGroupGids Run u ga gids g s)"

text \<open>Lines 100 to 122: the loop over \<open>controls.Groups\<close>.\<close>

fun runGroups ::
  "('cmd, 'w) runner \<Rightarrow> nat \<Rightarrow> string list \<Rightarrow> addr list \<Rightarrow> addr list \<Rightarrow> ('cmd, 'w) world
     \<Rightarrow> abort option \<times> addr list \<times> ('cmd, 'w) world" where
  "runGroups Run u gids [] g s = (None, g, s)"
| "runGroups Run u gids (ga # gas) g s =
     (case runGroupGids Run u ga gids g s of
        (None, g', s') \<Rightarrow> runGroups Run u gids gas g' s'
      | (Some a, g', s') \<Rightarrow> (Some a, g', s'))"

text \<open>Lines 83 to 126.\<close>

definition RunGroup ::
  "('cmd, 'w) runner \<Rightarrow> string list \<Rightarrow> ('cmd, 'w) world \<Rightarrow> outcome \<times> ('cmd, 'w) world" where
  "RunGroup Run gids s0 =
     (let s1 = s0\<lparr>controls := resetSummaries (controls s0)\<rparr> in
      case (if length gids = 0 then getAllGroupIDs (groups s1) (Groups (controls s1))
            else Some gids) of
        None \<Rightarrow> (Panicked, s1)
      | Some gids' \<Rightarrow>
          (case ParseUint (UserCISLevel (controls s1)) of
             None \<Rightarrow> (Returned (Summary (controls s1)) (Some UserLevelParseError), s1)
           | Some userCISLevel \<Rightarrow>
               (case runGroups Run userCISLevel gids' (Groups (controls s1)) [] s1 of
                  (Some Panic, g, s2) \<Rightarrow> (Panicked, s2)
                | (Some (Failed e), g, s2) \<Rightarrow> (Returned (Summary (controls s2)) (Some e), s2)
                | (None, g, s2) \<Rightarrow>
                    let s3 = s2\<lparr>controls := (controls s2)\<lparr>Groups := g\<rparr>\<rparr>
                    in (Returned (Summary (controls s3)) None, s3))))"

section \<open>RunChecks\<close>

fun getGroupCheckIDs :: "'cmd Check list \<Rightarrow> addr list \<Rightarrow> string list option" where
  "getGroupCheckIDs cheap [] = Some []"
| "getGroupCheckIDs cheap (ca # cas) =
     (case deref cheap ca of
        None \<Rightarrow> None
      | Some check \<Rightarrow> map_option ((#) (cID check)) (getGroupCheckIDs cheap cas))"

fun getAllCheckIDs :: "Group list \<Rightarrow> 'cmd Check list \<Rightarrow> addr list \<Rightarrow> string list option" where
  "getAllCheckIDs gheap cheap [] = Some []"
| "getAllCheckIDs gheap cheap (ga # gas) =
     (case deref gheap ga of
        None \<Rightarrow> None
      | Some grp \<Rightarrow>
          (case getGroupCheckIDs cheap (gChecks grp) of
             None \<Rightarrow> None
           | Some ids \<Rightarrow> map_option ((@) ids) (getAllCheckIDs gheap cheap gas)))"

text \<open>
  Lines 146 to 168: the body of \<open>if id == check.ID\<close>. \<open>g\<close> is the slice being rebuilt and
  \<open>m\<close> the map from a group ID to the shell made for it; a new shell is allocated at the
  end of the heap of groups.
\<close>

definition runChecksMatch ::
  "('cmd, 'w) runner \<Rightarrow> addr \<Rightarrow> addr \<Rightarrow> addr list \<Rightarrow> (string \<rightharpoonup> addr) \<Rightarrow> ('cmd, 'w) world
     \<Rightarrow> abort option \<times> addr list \<times> (string \<rightharpoonup> addr) \<times> ('cmd, 'w) world" where
  "runChecksMatch Run ga ca g m s =
     (case deref (checks s) ca of
        None \<Rightarrow> (Some Panic, g, m, s)
      | Some check \<Rightarrow>
          (let (check2, w) = Run (env s) check;
               check3 = check2\<lparr>cTestInfo := cTestInfo check2 @ [cRemediation check2]\<rparr>;
               s1 = s\<lparr>checks := (checks s)[ca := check3], env := w\<rparr>;
               s2 = s1\<lparr>controls := summarize (controls s1) check3\<rparr>
           in (case summarizeLevel (controls s2) check3 of
                 None \<Rightarrow> (Some Panic, g, m, s2)
               | Some c \<Rightarrow>
                   (let s3 = s2\<lparr>controls := c\<rparr>
                    in (case deref (groups s3) ga of
                          None \<Rightarrow> (Some Panic, g, m, s3)
                        | Some grp \<Rightarrow>
                            (case m (gID grp) of
                               None \<Rightarrow>
                                 (let shell = \<lparr>gID = gID grp, gPass = 0, gFail = 0, gWarn = 0,
                                               gSkip = 0, gInfo = 0, gText = gText grp,
                                               gChecks = [] @ [ca]\<rparr>;
                                      wa = length (groups s3)
                                  in (None, g @ [wa], m(gID shell \<mapsto> wa),
                                      s3\<lparr>groups := groups s3 @ [shell]\<rparr>))
                             | Some v \<Rightarrow>
                                 (case deref (groups s3) v of
                                    None \<Rightarrow> (Some Panic, g, m, s3)
                                  | Some vg \<Rightarrow>
                                      (None, g, m,
                                       s3\<lparr>groups :=
                                            (groups s3)[v := vg\<lparr>gChecks := gChecks vg @ [ca]\<rparr>]\<rparr>))))))))"

text \<open>Lines 144 to 171: the loop over \<open>ids\<close> for one check of one group.\<close>

fun runChecksIds ::
  "('cmd, 'w) runner \<Rightarrow> addr \<Rightarrow> addr \<Rightarrow> string list \<Rightarrow> addr list \<Rightarrow> (string \<rightharpoonup> addr)
     \<Rightarrow> ('cmd, 'w) world \<Rightarrow> abort option \<times> addr list \<times> (string \<rightharpoonup> addr) \<times> ('cmd, 'w) world" where
  "runChecksIds Run ga ca [] g m s = (None, g, m, s)"
| "runChecksIds Run ga ca (i # ids) g m s =
     (case deref (checks s) ca of
        None \<Rightarrow> (Some Panic, g, m, s)
      | Some check \<Rightarrow>
          if i = cID check then
            (case runChecksMatch Run ga ca g m s of
               (None, g', m', s') \<Rightarrow> runChecksIds Run ga ca ids g' m' s'
             | (Some a, g', m', s') \<Rightarrow> (Some a, g', m', s'))
          else runChecksIds Run ga ca ids g m s)"

text \<open>Lines 143 to 172: the loop over \<open>group.Checks\<close>, a slice read once when the loop starts.\<close>

fun runChecksOfGroup ::
  "('cmd, 'w) runner \<Rightarrow> string list \<Rightarrow> addr \<Rightarrow> addr list \<Rightarrow> addr list \<Rightarrow> (string \<rightharpoonup> addr)
     \<Rightarrow> ('cmd, 'w) world \<Rightarrow> abort option \<times> addr list \<times> (string \<rightharpoonup> addr) \<times> ('cmd, 'w) world" where
  "runChecksOfGroup Run ids ga [] g m s = (None, g, m, s)"
| "runChecksOfGroup Run ids ga (ca # cas) g m s =
     (case runChecksIds Run ga ca ids g m s of
        (None, g', m', s') \<Rightarrow> runChecksOfGroup Run ids ga cas g' m' s'
      | (Some a, g', m', s') \<Rightarrow> (Some a, g', m', s'))"

text \<open>
  Lines 142 to 173: the loop over \<open>controls.Groups\<close>. The pointers in that slice were
  there before the run, so one that is not among the \<open>old\<close> groups the heap held when
  the run started is nil, whatever RunChecks has allocated since.
\<close>

fun runChecksGroups ::
  "('cmd, 'w) runner \<Rightarrow> string list \<Rightarrow> nat \<Rightarrow> addr list \<Rightarrow> addr list \<Rightarrow> (string \<rightharpoonup> addr)
     \<Rightarrow> ('cmd, 'w) world \<Rightarrow> abort option \<times> addr list \<times> (string \<rightharpoonup> addr) \<times> ('cmd, 'w) world" where
  "runChecksGroups Run ids old [] g m s = (None, g, m, s)"
| "runChecksGroups Run ids old (ga # gas) g m s =
     (case (if ga < old then deref (groups s) ga else None) of
        None \<Rightarrow> (Some Panic, g, m, s)
      | Some grp \<Rightarrow>
          (case runChecksOfGroup Run ids ga (gChecks grp) g m s of
             (None, g', m', s') \<Rightarrow> runChecksGroups Run ids old gas g' m' s'
           | (Some a, g', m', s') \<Rightarrow> (Some a, g', m', s')))"

text \<open>
  Lines 129 to 177. The source has a single return, with a nil error. The loops share
  their result type with those of RunGroup; none of them fails here, so the branch for a
  failed loop is never taken.
\<close>

definition RunChecks ::
  "('cmd, 'w) runner \<Rightarrow> string list \<Rightarrow> ('cmd, 'w) world \<Rightarrow> outcome \<times> ('cmd, 'w) world" where
  "RunChecks Run ids s0 =
     (let s1 = s0\<lparr>controls := resetSummaries (controls s0)\<rparr> in
      case (if length ids = 0
            then getAllCheckIDs (groups s1) (checks s1) (Groups (controls s1))
            else Some ids) of
        None \<Rightarrow> (Panicked, s1)
      | Some ids' \<Rightarrow>
          (case runChecksGroups Run ids' (length (groups s1)) (Groups (controls s1)) [] Map.empty s1 of
             (Some Panic, g, m, s2) \<Rightarrow> (Panicked, s2)
           | (Some (Failed e), g, m, s2) \<Rightarrow> (Returned (Summary (controls s2)) (Some e), s2)
           | (None, g, m, s2) \<Rightarrow>
               let s3 = s2\<lparr>controls := (controls s2)\<lparr>Groups := g\<rparr>\<rparr>
               in (Returned (Summary (controls s3)) None, s3)))"

section \<open>NewControls\<close>

text \<open>
  Modelled from the spec: yaml.Unmarshal is a library function and textToCommand is
  outside controls.go; both are parameters. \<open>Unmarshal\<close> takes the input bytes, the
  Controls it decodes into and the two heaps, and gives an error text or the Controls and
  the heaps after decoding; \<open>textToCommand\<close> is a function from the audit text to the
  command list.
\<close>

type_synonym 'cmd decoder =
  "string \<Rightarrow> Controls \<times> Group list \<times> 'cmd Check list
     \<Rightarrow> string + Controls \<times> Group list \<times> 'cmd Check list"

definition emptyControls :: Controls where
  "emptyControls = \<lparr>ID = [], Version = [], Text = [], Type = [], UserCISLevel = [],
     Groups = [], Summary = zeroSummary, SummaryLevelWise = Map.empty\<rparr>"

text \<open>Lines 74 to 76: the loop over \<open>group.Checks\<close>.\<close>

fun prepareChecks ::
  "(string \<Rightarrow> 'cmd list) \<Rightarrow> addr list \<Rightarrow> 'cmd Check list \<Rightarrow> 'cmd Check list option" where
  "prepareChecks textToCommand [] cheap = Some cheap"
| "prepareChecks textToCommand (ca # cas) cheap =
     (case deref cheap ca of
        None \<Rightarrow> None
      | Some check \<Rightarrow>
          prepareChecks textToCommand cas
            (cheap[ca := check\<lparr>cCommands := textToCommand (cAudit check)\<rparr>]))"

text \<open>Lines 73 to 77: the loop over \<open>c.Groups\<close>.\<close>

fun prepareGroups ::
  "(string \<Rightarrow> 'cmd list) \<Rightarrow> Group list \<Rightarrow> addr list \<Rightarrow> 'cmd Check list
     \<Rightarrow> 'cmd Check list option" where
  "prepareGroups textToCommand gheap [] cheap = Some cheap"
| "prepareGroups textToCommand gheap (ga # gas) cheap =
     (case deref gheap ga of
        None \<Rightarrow> None
      | Some grp \<Rightarrow>
          (case prepareChecks textToCommand (gChecks grp) cheap of
             None \<Rightarrow> None
           | Some cheap' \<Rightarrow> prepareGroups textToCommand gheap gas cheap'))"

text \<open>
  The result of NewControls: \<open>Inl (Failed e)\<close> is \<open>(nil, error)\<close>, \<open>Inl Panic\<close> a nil-pointer
  panic in the loops, \<open>Inr\<close> the Controls with the heaps its pointers lead into.
\<close>

definition NewControls ::
  "'cmd decoder \<Rightarrow> (string \<Rightarrow> 'cmd list) \<Rightarrow> string \<Rightarrow> string \<Rightarrow> string
     \<Rightarrow> abort + Controls \<times> Group list \<times> 'cmd Check list" where
  "NewControls Unmarshal textToCommand t level inp =
     (let c0 = emptyControls\<lparr>UserCISLevel := level\<rparr> in
      case Unmarshal inp (c0, [], []) of
        Inl err \<Rightarrow> Inl (Failed (UnmarshalError err))
      | Inr (c, gheap, cheap) \<Rightarrow>
          if t \<noteq> Type c then Inl (Failed (TypeMismatchError t))
          else (case prepareGroups textToCommand gheap (Groups c) cheap of
                  None \<Rightarrow> Inl Panic
                | Some cheap' \<Rightarrow> Inr (c, gheap, cheap')))"

section \<open>Quantities the properties speak about\<close>

definition total :: "Summary \<Rightarrow> int" where
  "total sm = Pass sm + Fail sm + Warn sm + Info sm + Skip sm"

definition terminal :: "State \<Rightarrow> bool" where
  "terminal st = (st = PASS \<or> st = FAIL \<or> st = WARN \<or> st = INFO \<or> st = SKIP)"

text \<open>Check.Run leaves every check in one of the five states.\<close>

definition endsTerminal :: "('cmd, 'w) runner \<Rightarrow> bool" where
  "endsTerminal Run = (\<forall>w check. terminal (cState (fst (Run w check))))"

text \<open>Check.Run leaves the ID of the check as it was.\<close>

definition keepsID :: "('cmd, 'w) runner \<Rightarrow> bool" where
  "keepsID Run = (\<forall>w check. cID (fst (Run w check)) = cID check)"

section \<open>An example catalog\<close>

text \<open>
  The example of the specification: group "1" with check "1.1" of level 1 and check "1.2"
  of level 2, user level "1". The example host is the list of the IDs of the checks whose
  audit has run, and the example Check.Run passes every check.
\<close>

definition demoCheck :: "string \<Rightarrow> string \<Rightarrow> string Check" where
  "demoCheck i l = \<lparr>cID = i, cAudit = ''ps -ef'', cCommands = [], cRemediation = ''fix it'',
     CheckCISLevel = l, cState = OtherState [], cTestInfo = []\<rparr>"

definition demoGroup :: "addr list \<Rightarrow> Group" where
  "demoGroup cas = \<lparr>gID = ''1'', gPass = 0, gFail = 0, gWarn = 0, gSkip = 0, gInfo = 0,
     gText = ''Master Node'', gChecks = cas\<rparr>"

definition demoWorld :: "(string, string list) world" where
  "demoWorld = \<lparr>controls = emptyControls\<lparr>UserCISLevel := ''1'', Groups := [0]\<rparr>,
     groups = [demoGroup [0, 1]],
     checks = [demoCheck ''1.1'' ''1'', demoCheck ''1.2'' ''2''],
     env = []\<rparr>"

definition auditPasses :: "(string, string list) runner" where
  "auditPasses w check = (check\<lparr>cState := PASS\<rparr>, w @ [cID check])"

text \<open>The same memory with another user-selected level.\<close>

definition setLevel :: "string \<Rightarrow> ('cmd, 'w) world \<Rightarrow> ('cmd, 'w) world" where
  "setLevel l s = s\<lparr>controls := (controls s)\<lparr>UserCISLevel := l\<rparr>\<rparr>"

text \<open>
  The state-to-counter mapping as the specification words it: PASS to pass, FAIL to fail,
  WARN to warn, INFO to info, SKIP to skip, any other state a no-op.
\<close>

fun countState :: "State \<Rightarrow> Summary \<Rightarrow> Summary" where
  "countState PASS e = e\<lparr>Pass := Pass e + 1\<rparr>"
| "countState FAIL e = e\<lparr>Fail := Fail e + 1\<rparr>"
| "countState WARN e = e\<lparr>Warn := Warn e + 1\<rparr>"
| "countState INFO e = e\<lparr>Info := Info e + 1\<rparr>"
| "countState SKIP e = e\<lparr>Skip := Skip e + 1\<rparr>"
| "countState (OtherState x) e = e"

text \<open>
  Decoding the document \<open>inp\<close> leaves the UserCISLevel field of the Controls as it finds
  it, whatever it decodes into.
\<close>

definition keepsLevel :: "'cmd decoder \<Rightarrow> string \<Rightarrow> bool" where
  "keepsLevel Unmarshal inp =
     (\<forall>c gheap cheap c' gheap' cheap'.
        Unmarshal inp (c, gheap, cheap) = Inr (c', gheap', cheap')
          \<longrightarrow> UserCISLevel c' = UserCISLevel c)"

text \<open>No nil pointer among the groups of a Controls and the checks of these groups.\<close>

definition livePointers :: "Controls \<Rightarrow> Group list \<Rightarrow> 'cmd Check list \<Rightarrow> bool" where
  "livePointers c gheap cheap =
     (\<forall>ga \<in> set (Groups c). ga < length gheap \<and>
        (\<forall>ca \<in> set (gChecks (gheap ! ga)). ca < length cheap))"

text \<open>The Commands of the check at an address are the commands of its Audit text.\<close>

definition prepared :: "(string \<Rightarrow> 'cmd list) \<Rightarrow> 'cmd Check list \<Rightarrow> addr \<Rightarrow> bool" where
  "prepared f cheap a = (a < length cheap \<and> cCommands (cheap ! a) = f (cAudit (cheap ! a)))"

text \<open>
  The group IDs a RunGroup call works with: the ones passed, or all of them when none is
  passed.
\<close>

definition effectiveGids :: "string list \<Rightarrow> ('cmd, 'w) world \<Rightarrow> string list" where
  "effectiveGids gids s =
     (if length gids = 0
      then (case getAllGroupIDs (groups s) (Groups (controls s)) of None \<Rightarrow> [] | Some ids \<Rightarrow> ids)
      else gids)"

text \<open>
  The groups RunGroup selects, in the order it meets them: every group of the catalog, once
  for each requested ID equal to its own.
\<close>

fun selectedGroups :: "Group list \<Rightarrow> string list \<Rightarrow> addr list \<Rightarrow> addr list" where
  "selectedGroups gheap gids [] = []"
| "selectedGroups gheap gids (ga # gas) =
     (case deref gheap ga of
        None \<Rightarrow> []
      | Some grp \<Rightarrow> replicate (count_list gids (gID grp)) ga) @ selectedGroups gheap gids gas"

definition checksAt :: "Group list \<Rightarrow> addr \<Rightarrow> addr list" where
  "checksAt gheap ga = (case deref gheap ga of None \<Rightarrow> [] | Some grp \<Rightarrow> gChecks grp)"

text \<open>The number of check executions a RunGroup call selects.\<close>

definition executionsByGroup :: "string list \<Rightarrow> ('cmd, 'w) world \<Rightarrow> nat" where
  "executionsByGroup gids s =
     sum_list (map (\<lambda>ga. length (checksAt (groups s) ga))
       (selectedGroups (groups s) (effectiveGids gids s) (Groups (controls s))))"

text \<open>The number of checks of the groups at the addresses \<open>sel\<close>, with repetitions.\<close>

definition work :: "Group list \<Rightarrow> addr list \<Rightarrow> int" where
  "work gheap sel = int (sum_list (map (\<lambda>ga. length (checksAt gheap ga)) sel))"

text \<open>
  The check IDs a RunChecks call works with: the ones passed, or all of them when none is
  passed.
\<close>

definition effectiveIds :: "string list \<Rightarrow> ('cmd, 'w) world \<Rightarrow> string list" where
  "effectiveIds ids s =
     (if length ids = 0
      then (case getAllCheckIDs (groups s) (checks s) (Groups (controls s)) of
              None \<Rightarrow> [] | Some ids' \<Rightarrow> ids')
      else ids)"

text \<open>
  The matches RunChecks finds, in the order it meets them: for every group of the catalog,
  for every check of the group, the pair of the group and the check's address, once for
  each requested ID equal to the check's own.
\<close>

definition checkMatches :: "'cmd Check list \<Rightarrow> string list \<Rightarrow> addr \<Rightarrow> addr list" where
  "checkMatches cheap ids ca =
     (case deref cheap ca of
        None \<Rightarrow> []
      | Some check \<Rightarrow> replicate (count_list ids (cID check)) ca)"

definition groupMatches :: "'cmd Check list \<Rightarrow> string list \<Rightarrow> Group \<Rightarrow> (Group \<times> addr) list" where
  "groupMatches cheap ids grp = map (Pair grp) (concat (map (checkMatches cheap ids) (gChecks grp)))"

fun selectedChecks ::
  "Group list \<Rightarrow> 'cmd Check list \<Rightarrow> string list \<Rightarrow> addr list \<Rightarrow> (Group \<times> addr) list" where
  "selectedChecks gheap cheap ids [] = []"
| "selectedChecks gheap cheap ids (ga # gas) =
     (case deref gheap ga of
        None \<Rightarrow> []
      | Some grp \<Rightarrow> groupMatches cheap ids grp) @ selectedChecks gheap cheap ids gas"

text \<open>The number of check executions a RunChecks call selects.\<close>

definition executionsByCheck :: "string list \<Rightarrow> ('cmd, 'w) world \<Rightarrow> nat" where
  "executionsByCheck ids s =
     length (selectedChecks (groups s) (checks s) (effectiveIds ids s) (Groups (controls s)))"

text \<open>
  The rebuilt group list of RunChecks as the specification words it: a fresh shell, with
  only ID and text copied, is made for the owning group the first time one of its checks
  matches and the check is appended to it; later matching checks of a group with that ID
  are appended to the same shell.
\<close>

definition newShell :: "Group \<Rightarrow> addr \<Rightarrow> Group" where
  "newShell grp ca = \<lparr>gID = gID grp, gPass = 0, gFail = 0, gWarn = 0, gSkip = 0, gInfo = 0,
     gText = gText grp, gChecks = [ca]\<rparr>"

fun addToShells :: "Group list \<Rightarrow> Group \<times> addr \<Rightarrow> Group list" where
  "addToShells [] (grp, ca) = [newShell grp ca]"
| "addToShells (w # ws) (grp, ca) =
     (if gID w = gID grp then w\<lparr>gChecks := gChecks w @ [ca]\<rparr> # ws
      else w # addToShells ws (grp, ca))"

definition rebuiltShells :: "string list \<Rightarrow> ('cmd, 'w) world \<Rightarrow> Group list" where
  "rebuiltShells ids s =
     foldl addToShells []
       (selectedChecks (groups s) (checks s) (effectiveIds ids s) (Groups (controls s)))"

text \<open>
  The memory of the loops of RunChecks, \<open>n\<close> groups and the heap \<open>gheap\<close> having been
  there when the run started: these groups are as they were, the shells in \<open>g\<close> are
  distinct and were all made since, and \<open>m\<close> maps a group ID to the shell in \<open>g\<close> that
  bears it.
\<close>

definition shellsInv ::
  "Group list \<Rightarrow> addr list \<Rightarrow> (string \<rightharpoonup> addr) \<Rightarrow> Group list \<Rightarrow> bool" where
  "shellsInv gheap0 g m gheap =
     (length gheap0 \<le> length gheap \<and> take (length gheap0) gheap = gheap0 \<and>
      distinct g \<and> (\<forall>a \<in> set g. length gheap0 \<le> a \<and> a < length gheap) \<and>
      (\<forall>k v. m k = Some v \<longleftrightarrow> v \<in> set g \<and> gID (gheap ! v) = k))"

text \<open>
  What a stretch of the loops of RunChecks that found the matches \<open>ms\<close> does, from
  \<open>g\<close>, \<open>s\<close> to \<open>g'\<close>, \<open>m'\<close>, \<open>s'\<close>: the shells are as the specification adds
  the matches to them, the check IDs are unchanged, and (Check.Run ending in one of the five
  states) the global Summary has grown by the number of matches.
\<close>

definition runChecksPost ::
  "('cmd, 'w) runner \<Rightarrow> Group list \<Rightarrow> (Group \<times> addr) list \<Rightarrow> addr list \<Rightarrow> ('cmd, 'w) world
     \<Rightarrow> addr list \<Rightarrow> (string \<rightharpoonup> addr) \<Rightarrow> ('cmd, 'w) world \<Rightarrow> bool" where
  "runChecksPost Run gheap0 ms g s g' m' s' =
     (shellsInv gheap0 g' m' (groups s') \<and>
      map ((!) (groups s')) g' = foldl addToShells (map ((!) (groups s)) g) ms \<and>
      map cID (checks s') = map cID (checks s) \<and>
      (endsTerminal Run \<longrightarrow>
         total (Summary (controls s')) = total (Summary (controls s)) + int (length ms)))"

text \<open>
  More examples: the example catalog with the required level of check "1.2" unreadable;
  a catalog whose only check requires level 3, run at user level 3.
\<close>

definition badLevelWorld :: "(string, string list) world" where
  "badLevelWorld = demoWorld\<lparr>checks := [demoCheck ''1.1'' ''1'', demoCheck ''1.2'' ''two'']\<rparr>"

definition level3World :: "(string, string list) world" where
  "level3World = \<lparr>controls = emptyControls\<lparr>UserCISLevel := ''3'', Groups := [0]\<rparr>,
     groups = [demoGroup [0]], checks = [demoCheck ''1.1'' ''3''], env = []\<rparr>"

text \<open>
  Three catalog documents. The fields of Controls that have no yaml tag are decoded from
  the key that is the field name in lower case: \<open>type\<close>, \<open>groups\<close>, and also
  \<open>usercislevel\<close>. A \<open>null\<close> in the list of groups is decoded to a nil pointer.
\<close>

definition docMaster :: string where
  "docMaster = ''{id: 1, type: master, groups: [{id: 1, text: Master Node, checks: [1.1, 1.2]}]}''"

definition docLevel :: string where
  "docLevel = ''{type: master, usercislevel: 2}''"

definition docNil :: string where
  "docNil = ''{type: master, groups: [null]}''"

text \<open>
  A decoder for the three documents, any other input being a parse error. It writes the
  fields the document has and leaves the others as they are; groups and checks are
  allocated at the end of the heaps, and the nil pointer is an address outside the heap of
  groups.
\<close>

definition demoDecoder :: "string decoder" where
  "demoDecoder inp x =
     (case x of (c, gheap, cheap) \<Rightarrow>
        if inp = docMaster then
          Inr (c\<lparr>ID := ''1'', Type := ''master'', Groups := [length gheap]\<rparr>,
               gheap @ [demoGroup [length cheap, length cheap + 1]],
               cheap @ [demoCheck ''1.1'' ''1'', demoCheck ''1.2'' ''2''])
        else if inp = docLevel then
          Inr (c\<lparr>Type := ''master'', UserCISLevel := ''2''\<rparr>, gheap, cheap)
        else if inp = docNil then
          Inr (c\<lparr>Type := ''master'', Groups := [length gheap]\<rparr>, gheap, cheap)
        else Inl ''yaml: did not find expected node content'')"

definition demoTextToCommand :: "string \<Rightarrow> string list" where
  "demoTextToCommand audit = [audit]"

section \<open>Group counters and the executions of a run\<close>

text \<open>
  The counter of a group that stands for a state, as the specification words it: PASS is
  counted in pass, FAIL in fail, WARN in warn, INFO in info, SKIP in skip; a state outside
  the five has no counter.
\<close>

fun groupCounter :: "State \<Rightarrow> Group \<Rightarrow> 64 word" where
  "groupCounter PASS grp = gPass grp"
| "groupCounter FAIL grp = gFail grp"
| "groupCounter WARN grp = gWarn grp"
| "groupCounter INFO grp = gInfo grp"
| "groupCounter SKIP grp = gSkip grp"
| "groupCounter (OtherState x) grp = 0"

definition counterAt :: "State \<Rightarrow> Group list \<Rightarrow> addr \<Rightarrow> 64 word" where
  "counterAt st gheap a = (case deref gheap a of None \<Rightarrow> 0 | Some grp \<Rightarrow> groupCounter st grp)"

text \<open>
  The executions of a RunGroup call, in order: for every pass of the loop body of lines 105
  to 116 that reaches its end, the address of the group, the address of the check and the
  state of the check when the pass ends. The functions follow the three loops of RunGroup
  step by step; a pass that returns the parse error or panics ends the list.
\<close>

type_synonym execution = "addr \<times> addr \<times> State"

fun checksLog ::
  "('cmd, 'w) runner \<Rightarrow> nat \<Rightarrow> addr \<Rightarrow> addr list \<Rightarrow> ('cmd, 'w) world \<Rightarrow> execution list" where
  "checksLog Run u ga [] s = []"
| "checksLog Run u ga (ca # cas) s =
     (case runGroupCheck Run u ga ca s of
        (None, s') \<Rightarrow> (ga, ca, cState (checks s' ! ca)) # checksLog Run u ga cas s'
      | (Some a, s') \<Rightarrow> [])"

fun gidsLog ::
  "('cmd, 'w) runner \<Rightarrow> nat \<Rightarrow> addr \<Rightarrow> string list \<Rightarrow> addr list \<Rightarrow> ('cmd, 'w) world
     \<Rightarrow> execution list" where
  "gidsLog Run u ga [] g s = []"
| "gidsLog Run u ga (gid # gids) g s =
     (case deref (groups s) ga of
        None \<Rightarrow> []
      | Some grp \<Rightarrow>
          if gid = gID grp then
            checksLog Run u ga (gChecks grp) s @
            (case runGroupChecks Run u ga (gChecks grp) s of
               (None, s') \<Rightarrow> gidsLog Run u ga gids (g @ [ga]) s'
             | (Some a, s') \<Rightarrow> [])
          else gidsLog Run u ga gids g s)"

fun groupsLog ::
  "('cmd, 'w) runner \<Rightarrow> nat \<Rightarrow> string list \<Rightarrow> addr list \<Rightarrow> addr list \<Rightarrow> ('cmd, 'w) world
     \<Rightarrow> execution list" where
  "groupsLog Run u gids [] g s = []"
| "groupsLog Run u gids (ga # gas) g s =
     gidsLog Run u ga gids g s @
     (case runGroupGids Run u ga gids g s of
        (None, g', s') \<Rightarrow> groupsLog Run u gids gas g' s'
      | (Some a, g', s') \<Rightarrow> [])"

definition executions ::
  "('cmd, 'w) runner \<Rightarrow> string list \<Rightarrow> ('cmd, 'w) world \<Rightarrow> execution list" where
  "executions Run gids s =
     (case ParseUint (UserCISLevel (controls s)) of
        None \<Rightarrow> []
      | Some u \<Rightarrow>
          groupsLog Run u (effectiveGids gids s) (Groups (controls s)) []
            (s\<lparr>controls := resetSummaries (controls s)\<rparr>))"

text \<open>The number of executions of checks of the group at \<open>a\<close> that ended in state \<open>st\<close>.\<close>

definition executionsIn :: "execution list \<Rightarrow> addr \<Rightarrow> State \<Rightarrow> nat" where
  "executionsIn log a st = length (filter (\<lambda>e. fst e = a \<and> snd (snd e) = st) log)"

text \<open>The number of member checks of the group at \<open>a\<close> that are in state \<open>st\<close>.\<close>

definition stateAt :: "'cmd Check list \<Rightarrow> addr \<Rightarrow> State option" where
  "stateAt cheap ca = map_option cState (deref cheap ca)"

definition membersIn :: "State \<Rightarrow> ('cmd, 'w) world \<Rightarrow> addr \<Rightarrow> nat" where
  "membersIn st s a =
     length (filter (\<lambda>ca. stateAt (checks s) ca = Some st) (checksAt (groups s) a))"

text \<open>
  No pointer occurs twice in the catalog: no group twice in \<open>controls.Groups\<close>, no check
  twice among the checks of these groups. This is how the decoder builds a catalog, every
  group and check of the document being allocated on its own.
\<close>

definition noSharing :: "('cmd, 'w) world \<Rightarrow> bool" where
  "noSharing s =
     (distinct (Groups (controls s)) \<and>
      distinct (concat (map (checksAt (groups s)) (Groups (controls s)))))"

text \<open>The example catalog with the pass counter of group "1" at the largest Go \<open>int\<close>.\<close>

definition fullWorld :: "(string, string list) world" where
  "fullWorld = demoWorld\<lparr>groups := [(demoGroup [0, 1])\<lparr>gPass := 9223372036854775807\<rparr>]\<rparr>"

lemmas demo_defs =
  demoCheck_def demoGroup_def demoWorld_def auditPasses_def emptyControls_def zeroSummary_def
  badLevelWorld_def level3World_def demoDecoder_def demoTextToCommand_def

lemmas doc_defs = docMaster_def docLevel_def docNil_def

lemmas run_defs =
  RunGroup_def RunChecks_def resetSummaries_def ParseUint_def cutoff_def maxVal_def deref_def
  runGroupCheck_def runChecksMatch_def summarize_def summarizeGroup_def summarizeLevel_def Let_def

lemma auditPasses_endsTerminal: "endsTerminal auditPasses"
  by (simp add: endsTerminal_def auditPasses_def terminal_def)

lemma auditPasses_keepsID: "keepsID auditPasses"
  by (simp add: keepsID_def auditPasses_def)

section \<open>Loops of RunGroup: invariants\<close>

lemma runGroupChecks_invariant:
  assumes "runGroupChecks Run u ga cas s = (a, s')"
    and "P s"
    and "\<And>ca t b t'. P t \<Longrightarrow> runGroupCheck Run u ga ca t = (b, t') \<Longrightarrow> P t'"
  shows "P s'"
  using assms(1,2)
proof (induction cas arbitrary: s)
  case Nil
  then show ?case by simp
next
  case (Cons ca cas)
  obtain b t where step: "runGroupCheck Run u ga ca s = (b, t)"
    by (cases "runGroupCheck Run u ga ca s")
  have Pt: "P t" using assms(3) [OF Cons.prems(2) step] .
  show ?case
  proof (cases b)
    case None
    with Cons.prems(1) step have "runGroupChecks Run u ga cas t = (a, s')" by simp
    from Cons.IH [OF this Pt] show ?thesis .
  next
    case (Some x)
    with Cons.prems(1) step have "s' = t" by simp
    with Pt show ?thesis by simp
  qed
qed

lemma runGroupGids_invariant:
  assumes "runGroupGids Run u ga gids g s = (a, g', s')"
    and "P s"
    and "\<And>ca t b t'. P t \<Longrightarrow> runGroupCheck Run u ga ca t = (b, t') \<Longrightarrow> P t'"
  shows "P s'"
  using assms(1,2)
proof (induction gids arbitrary: g s)
  case Nil
  then show ?case by simp
next
  case (Cons gid gids)
  show ?case
  proof (cases "deref (groups s) ga")
    case None
    with Cons.prems show ?thesis by simp
  next
    case (Some grp)
    show ?thesis
    proof (cases "gid = gID grp")
      case False
      with Cons.prems(1) Some have "runGroupGids Run u ga gids g s = (a, g', s')" by simp
      from Cons.IH [OF this Cons.prems(2)] show ?thesis .
    next
      case True
      obtain b t where loop: "runGroupChecks Run u ga (gChecks grp) s = (b, t)"
        by (cases "runGroupChecks Run u ga (gChecks grp) s")
      have Pt: "P t"
        using runGroupChecks_invariant [where P = P, OF loop Cons.prems(2)] assms(3) by blast
      show ?thesis
      proof (cases b)
        case None
        with Cons.prems(1) Some True loop
        have "runGroupGids Run u ga gids (g @ [ga]) t = (a, g', s')" by simp
        from Cons.IH [OF this Pt] show ?thesis .
      next
        case (Some x)
        with Cons.prems(1) \<open>deref (groups s) ga = Some grp\<close> True loop have "s' = t" by simp
        with Pt show ?thesis by simp
      qed
    qed
  qed
qed

lemma runGroups_invariant:
  assumes "runGroups Run u gids gas g s = (a, g', s')"
    and "P s"
    and "\<And>ga ca t b t'. P t \<Longrightarrow> runGroupCheck Run u ga ca t = (b, t') \<Longrightarrow> P t'"
  shows "P s'"
  using assms(1,2)
proof (induction gas arbitrary: g s)
  case Nil
  then show ?case by simp
next
  case (Cons ga gas)
  obtain b h t where loop: "runGroupGids Run u ga gids g s = (b, h, t)"
    by (cases "runGroupGids Run u ga gids g s")
  have Pt: "P t"
    using runGroupGids_invariant [where P = P, OF loop Cons.prems(2)] assms(3) by blast
  show ?case
  proof (cases b)
    case None
    with Cons.prems(1) loop have "runGroups Run u gids gas h t = (a, g', s')" by simp
    from Cons.IH [OF this Pt] show ?thesis .
  next
    case (Some x)
    with Cons.prems(1) loop have "s' = t" by simp
    with Pt show ?thesis by simp
  qed
qed

section \<open>What one step of RunGroup leaves alone\<close>


lemma summarizeLevel_frame:
  assumes "summarizeLevel c check = Some c'"
  shows "Groups c' = Groups c" and "UserCISLevel c' = UserCISLevel c" and "Summary c' = Summary c"
  using assms by (auto simp: summarizeLevel_def Let_def split: State.splits option.splits)

lemma summarizeGroup_frame:
  "gID (summarizeGroup grp check) = gID grp"
  "gChecks (summarizeGroup grp check) = gChecks grp"
  "gText (summarizeGroup grp check) = gText grp"
  by (simp_all add: summarizeGroup_def split: State.splits)


lemma runGroupCheck_Failed:
  assumes "runGroupCheck Run u ga ca s = (Some (Failed e), s')"
  shows "e = CheckLevelParseError \<and> s' = s \<and>
         (\<exists>check. deref (checks s) ca = Some check \<and> ParseUint (CheckCISLevel check) = None)"
  using assms
  by (auto simp: runGroupCheck_def Let_def split: option.splits prod.splits)

section \<open>Loops of RunGroup: aborts\<close>






lemma resetSummaries_frame:
  "Groups (resetSummaries c) = Groups c"
  "UserCISLevel (resetSummaries c) = UserCISLevel c"
  "Summary (resetSummaries c) = zeroSummary"
  by (simp_all add: resetSummaries_def zeroSummary_def)

section \<open>Loops of RunGroup: a list in two parts\<close>






section \<open>RunGroup: what a successful step adds\<close>

lemma deref_Some: "deref heap a = Some x \<longleftrightarrow> a < length heap \<and> heap ! a = x"
  by (auto simp: deref_def)

lemma deref_None: "deref heap a = None \<longleftrightarrow> length heap \<le> a"
  by (auto simp: deref_def)

lemma deref_update:
  "deref (heap[a := x]) b = (if b = a \<and> a < length heap then Some x else deref heap b)"
  by (auto simp: deref_def)

lemma runGroupCheck_shape:
  assumes "runGroupCheck Run u ga ca s = (b, s')"
  shows "map gID (groups s') = map gID (groups s) \<and> map gChecks (groups s') = map gChecks (groups s)"
  using assms
  by (auto simp: runGroupCheck_def Let_def deref_Some map_update summarizeGroup_frame
      list_update_same_conv split: option.splits prod.splits)

lemma total_summarize:
  "terminal (cState check) \<Longrightarrow> total (Summary (summarize c check)) = total (Summary c) + 1"
  by (auto simp: terminal_def summarize_def total_def)

lemma runGroupCheck_counts:
  assumes ok: "runGroupCheck Run u ga ca s = (None, s')" and trm: "endsTerminal Run"
  shows "total (Summary (controls s')) = total (Summary (controls s)) + 1"
proof -
  from ok obtain check lvl check2 w grp c where
    d: "deref (checks s) ca = Some check" and
    r: "Run (env s) (if u < lvl then check\<lparr>cState := SKIP\<rparr> else check) = (check2, w)" and
    g: "deref (groups s) ga = Some grp" and
    l: "summarizeLevel (summarize (controls s) (check2\<lparr>cTestInfo := cTestInfo check2 @ [cRemediation check2]\<rparr>))
          (check2\<lparr>cTestInfo := cTestInfo check2 @ [cRemediation check2]\<rparr>) = Some c" and
    s': "s' = s\<lparr>checks := (checks s)[ca := check2\<lparr>cTestInfo := cTestInfo check2 @ [cRemediation check2]\<rparr>],
              env := w,
              groups := (groups s)[ga := summarizeGroup grp
                 (check2\<lparr>cTestInfo := cTestInfo check2 @ [cRemediation check2]\<rparr>)],
              controls := c\<rparr>"
    by (auto simp: runGroupCheck_def Let_def split: option.splits prod.splits)
  from trm r have t: "terminal (cState check2)"
    unfolding endsTerminal_def by (metis fst_conv)
  let ?check3 = "check2\<lparr>cTestInfo := cTestInfo check2 @ [cRemediation check2]\<rparr>"
  from t have t3: "terminal (cState ?check3)" by simp
  from summarizeLevel_frame(3) [OF l] total_summarize [OF t3, of "controls s"] s'
  show "total (Summary (controls s')) = total (Summary (controls s)) + 1" by simp
qed

lemma runGroupChecks_shape:
  assumes "runGroupChecks Run u ga cas s = (b, s')"
  shows "map gID (groups s') = map gID (groups s) \<and> map gChecks (groups s') = map gChecks (groups s)"
  using runGroupChecks_invariant
    [where P = "\<lambda>t. map gID (groups t) = map gID (groups s) \<and> map gChecks (groups t) = map gChecks (groups s)",
      OF assms]
    runGroupCheck_shape by metis

lemma runGroupChecks_counts:
  assumes "runGroupChecks Run u ga cas s = (None, s')" and trm: "endsTerminal Run"
  shows "total (Summary (controls s')) = total (Summary (controls s)) + int (length cas)"
  using assms(1)
proof (induction cas arbitrary: s)
  case Nil
  then show ?case by simp
next
  case (Cons ca cas)
  from Cons.prems obtain t where step: "runGroupCheck Run u ga ca s = (None, t)"
    and rest: "runGroupChecks Run u ga cas t = (None, s')"
    by (auto split: prod.splits option.splits)
  from runGroupCheck_counts [OF step trm] Cons.IH [OF rest]
  show ?case by auto
qed

lemma deref_map_eq:
  assumes "map f xs = map f ys"
  shows "map_option f (deref xs a) = map_option f (deref ys a)"
proof -
  from assms have "length xs = length ys" by (metis length_map)
  moreover from assms have "a < length xs \<Longrightarrow> f (xs ! a) = f (ys ! a)"
    by (metis nth_map \<open>length xs = length ys\<close>)
  ultimately show ?thesis by (simp add: deref_def)
qed

lemma runGroupGids_shape:
  assumes "runGroupGids Run u ga gids g s = (b, g', s')"
  shows "map gID (groups s') = map gID (groups s) \<and> map gChecks (groups s') = map gChecks (groups s)"
  using runGroupGids_invariant
    [where P = "\<lambda>t. map gID (groups t) = map gID (groups s) \<and> map gChecks (groups t) = map gChecks (groups s)",
      OF assms]
    runGroupCheck_shape by metis

lemma runGroups_shape:
  assumes "runGroups Run u gids gas g s = (b, g', s')"
  shows "map gID (groups s') = map gID (groups s) \<and> map gChecks (groups s') = map gChecks (groups s)"
  using runGroups_invariant
    [where P = "\<lambda>t. map gID (groups t) = map gID (groups s) \<and> map gChecks (groups t) = map gChecks (groups s)",
      OF assms]
    runGroupCheck_shape by metis

lemma runGroupGids_selected:
  assumes "runGroupGids Run u ga gids g s = (None, g', s')"
  shows "g' = g @ selectedGroups (groups s) gids [ga]"
  using assms
proof (induction gids arbitrary: g s)
  case Nil
  then show ?case by (simp split: option.splits)
next
  case (Cons gid gids)
  from Cons.prems obtain grp where d: "deref (groups s) ga = Some grp"
    by (auto split: option.splits)
  show ?case
  proof (cases "gid = gID grp")
    case False
    with Cons.prems d have "runGroupGids Run u ga gids g s = (None, g', s')" by simp
    from Cons.IH [OF this] d False show ?thesis by simp
  next
    case True
    with Cons.prems d obtain t where
      loop: "runGroupChecks Run u ga (gChecks grp) s = (None, t)" and
      rest: "runGroupGids Run u ga gids (g @ [ga]) t = (None, g', s')"
      by (auto split: prod.splits option.splits)
    from runGroupChecks_shape [OF loop] have "map gID (groups t) = map gID (groups s)" by simp
    from deref_map_eq [OF this, of ga] d obtain grp' where
      d': "deref (groups t) ga = Some grp'" and id': "gID grp' = gID grp" by auto
    from Cons.IH [OF rest] d d' id' True show ?thesis
      by (simp add: replicate_append_same)
  qed
qed


lemma selectedGroups_cong:
  "map gID h1 = map gID h2 \<Longrightarrow> selectedGroups h1 gids gas = selectedGroups h2 gids gas"
proof (induction gas)
  case Nil
  show ?case by simp
next
  case (Cons ga gas)
  from deref_map_eq [OF Cons.prems, of ga] Cons.IH [OF Cons.prems]
  show ?case by (auto split: option.splits)
qed

lemma checksAt_cong:
  "map gChecks h1 = map gChecks h2 \<Longrightarrow> checksAt h1 a = checksAt h2 a"
  using deref_map_eq [of gChecks h1 h2 a] by (auto simp: checksAt_def split: option.splits)

lemma selectedGroups_append:
  "selectedGroups gheap gids (xs @ ys) = selectedGroups gheap gids xs @ selectedGroups gheap gids ys"
  by (induction xs) simp_all

lemma work_simps:
  "work gheap [] = 0"
  "work gheap (x # xs) = int (length (checksAt gheap x)) + work gheap xs"
  "work gheap (xs @ ys) = work gheap xs + work gheap ys"
  by (simp_all add: work_def)

lemma work_cong: "map gChecks h1 = map gChecks h2 \<Longrightarrow> work h1 sel = work h2 sel"
  using checksAt_cong [of h1 h2] by (simp add: work_def)

lemma work_replicate: "work gheap (replicate n ga) = int n * int (length (checksAt gheap ga))"
  by (induction n) (simp_all add: work_simps algebra_simps)

lemma count_list_replicate: "count_list (replicate n x) a = (if a = x then n else 0)"
  by (induction n) auto

lemma runGroupGids_counts:
  assumes "runGroupGids Run u ga gids g s = (None, g', s')" and trm: "endsTerminal Run"
  shows "total (Summary (controls s')) =
           total (Summary (controls s)) + work (groups s) (selectedGroups (groups s) gids [ga])"
  using assms(1)
proof (induction gids arbitrary: g s)
  case Nil
  then show ?case by (simp add: work_simps split: option.splits)
next
  case (Cons gid gids)
  from Cons.prems obtain grp where d: "deref (groups s) ga = Some grp"
    by (auto split: option.splits)
  show ?case
  proof (cases "gid = gID grp")
    case False
    with Cons.prems d have "runGroupGids Run u ga gids g s = (None, g', s')" by simp
    from Cons.IH [OF this] d False show ?thesis by simp
  next
    case True
    with Cons.prems d obtain t where
      loop: "runGroupChecks Run u ga (gChecks grp) s = (None, t)" and
      rest: "runGroupGids Run u ga gids (g @ [ga]) t = (None, g', s')"
      by (auto split: prod.splits option.splits)
    note sh = runGroupChecks_shape [OF loop]
    from sh have sel: "selectedGroups (groups t) gids [ga] = selectedGroups (groups s) gids [ga]"
      using selectedGroups_cong by blast
    from sh have wk: "work (groups t) sel' = work (groups s) sel'" for sel'
      using work_cong by blast
    note C = runGroupChecks_counts [OF loop trm]
    let ?k = "count_list gids (gID grp)"
    have sel_s: "selectedGroups (groups s) gids [ga] = replicate ?k ga"
      using d by simp
    have selC: "selectedGroups (groups s) (gid # gids) [ga] = replicate (Suc ?k) ga"
      using d True by simp
    note IH = Cons.IH [OF rest, unfolded sel wk sel_s]
    have here: "checksAt (groups s) ga = gChecks grp"
      using d by (simp add: checksAt_def)
    have T: "total (Summary (controls s')) =
        total (Summary (controls s)) + work (groups s) (replicate (Suc ?k) ga)"
      using C IH by (simp add: work_replicate work_simps here algebra_simps)
    from T show ?thesis unfolding selC .
  qed
qed

lemma runGroups_selected:
  assumes "runGroups Run u gids gas g s = (None, g', s')"
  shows "g' = g @ selectedGroups (groups s) gids gas"
  using assms
proof (induction gas arbitrary: g s)
  case Nil
  then show ?case by simp
next
  case (Cons ga gas)
  from Cons.prems obtain h t where
    one: "runGroupGids Run u ga gids g s = (None, h, t)" and
    rest: "runGroups Run u gids gas h t = (None, g', s')"
    by (auto split: prod.splits option.splits)
  from runGroupGids_shape [OF one] have
    sel: "selectedGroups (groups t) gids gas = selectedGroups (groups s) gids gas"
    using selectedGroups_cong by blast
  from runGroupGids_selected [OF one] Cons.IH [OF rest] sel
  show ?case
    using selectedGroups_append [of "groups s" gids "[ga]" gas] by simp
qed

lemma runGroups_counts:
  assumes "runGroups Run u gids gas g s = (None, g', s')" and trm: "endsTerminal Run"
  shows "total (Summary (controls s')) =
           total (Summary (controls s)) + work (groups s) (selectedGroups (groups s) gids gas)"
  using assms(1)
proof (induction gas arbitrary: g s)
  case Nil
  then show ?case by (simp add: work_simps)
next
  case (Cons ga gas)
  from Cons.prems obtain h t where
    one: "runGroupGids Run u ga gids g s = (None, h, t)" and
    rest: "runGroups Run u gids gas h t = (None, g', s')"
    by (auto split: prod.splits option.splits)
  note sh = runGroupGids_shape [OF one]
  from sh have sel: "selectedGroups (groups t) gids gas = selectedGroups (groups s) gids gas"
    using selectedGroups_cong by blast
  from sh have wk: "work (groups t) sel' = work (groups s) sel'" for sel'
    using work_cong by blast
  note C = runGroupGids_counts [OF one trm]
  note IH = Cons.IH [OF rest, unfolded sel wk]
  have split: "selectedGroups (groups s) gids (ga # gas) =
      selectedGroups (groups s) gids [ga] @ selectedGroups (groups s) gids gas"
    using selectedGroups_append [of "groups s" gids "[ga]" gas] by simp
  show ?case
    using C IH unfolding split by (simp add: work_simps)
qed

lemma RunGroup_success:
  assumes "RunGroup Run gids s = (Returned sm None, s')"
  shows "\<exists>u g s2. ParseUint (UserCISLevel (controls s)) = Some u \<and>
           runGroups Run u (effectiveGids gids s) (Groups (controls s)) []
             (s\<lparr>controls := resetSummaries (controls s)\<rparr>) = (None, g, s2) \<and>
           s' = s2\<lparr>controls := (controls s2)\<lparr>Groups := g\<rparr>\<rparr> \<and> sm = Summary (controls s2)"
  using assms
  by (auto simp: RunGroup_def Let_def effectiveGids_def resetSummaries_frame
      split: option.splits if_splits prod.splits abort.splits)

lemma RunGroup_selected:
  assumes "RunGroup Run gids s = (Returned sm None, s')"
  shows "Groups (controls s') =
           selectedGroups (groups s) (effectiveGids gids s) (Groups (controls s))"
proof -
  from RunGroup_success [OF assms] obtain u g s2 where
    loop: "runGroups Run u (effectiveGids gids s) (Groups (controls s)) []
             (s\<lparr>controls := resetSummaries (controls s)\<rparr>) = (None, g, s2)" and
    s': "s' = s2\<lparr>controls := (controls s2)\<lparr>Groups := g\<rparr>\<rparr>" by blast
  from runGroups_selected [OF loop] s' show ?thesis by simp
qed

lemma RunGroup_counts:
  assumes "RunGroup Run gids s = (Returned sm None, s')" and trm: "endsTerminal Run"
  shows "total sm = int (executionsByGroup gids s)"
proof -
  from RunGroup_success [OF assms(1)] obtain u g s2 where
    loop: "runGroups Run u (effectiveGids gids s) (Groups (controls s)) []
             (s\<lparr>controls := resetSummaries (controls s)\<rparr>) = (None, g, s2)" and
    s': "s' = s2\<lparr>controls := (controls s2)\<lparr>Groups := g\<rparr>\<rparr>" and
    sm: "sm = Summary (controls s2)" by blast
  from runGroups_selected [OF loop]
  have g: "g = selectedGroups (groups s) (effectiveGids gids s) (Groups (controls s))" by simp
  have z: "total zeroSummary = 0" by (simp add: total_def zeroSummary_def)
  from runGroups_counts [OF loop trm] sm z
  show "total sm = int (executionsByGroup gids s)"
    by (simp add: resetSummaries_frame executionsByGroup_def work_def)
qed

lemma count_list_selectedGroups:
  "count_list (selectedGroups gheap gids gas) a =
     count_list gas a * (case deref gheap a of None \<Rightarrow> 0 | Some grp \<Rightarrow> count_list gids (gID grp))"
  by (induction gas) (auto simp: count_list_replicate split: option.splits)

section \<open>RunChecks: one match\<close>

lemma runChecksMatch_groups:
  assumes "runChecksMatch Run ga ca g m s = (None, g', m', s')"
  shows "\<exists>grp. deref (groups s) ga = Some grp \<and>
          (m (gID grp) = None \<and> g' = g @ [length (groups s)] \<and>
             m' = m(gID grp \<mapsto> length (groups s)) \<and>
             groups s' = groups s @ [newShell grp ca]
           \<or> (\<exists>v. m (gID grp) = Some v \<and> v < length (groups s) \<and> g' = g \<and> m' = m \<and>
                 groups s' = (groups s)[v := (groups s ! v)\<lparr>gChecks := gChecks (groups s ! v) @ [ca]\<rparr>]))"
  using assms
  by (auto simp: runChecksMatch_def Let_def newShell_def deref_Some
      split: option.splits prod.splits)

lemma runChecksMatch_checks:
  assumes "runChecksMatch Run ga ca g m s = (b, g', m', s')" and "keepsID Run"
  shows "map cID (checks s') = map cID (checks s)"
proof -
  have upd: "map cID ((checks s)[ca := check2\<lparr>cTestInfo := ti\<rparr>]) = map cID (checks s)"
    if "deref (checks s) ca = Some check" "Run (env s) check = (check2, w)" for check check2 w ti
  proof -
    from assms(2) that(2) have "cID check2 = cID check"
      unfolding keepsID_def by (metis fst_conv)
    with that(1) show ?thesis
      by (simp add: deref_Some map_update list_update_same_conv)
  qed
  from assms(1) show ?thesis
    by (auto simp: runChecksMatch_def Let_def upd split: option.splits prod.splits)
qed

lemma runChecksMatch_total:
  assumes "runChecksMatch Run ga ca g m s = (None, g', m', s')" and "endsTerminal Run"
  shows "total (Summary (controls s')) = total (Summary (controls s)) + 1"
proof -
  have one: "total (Summary c) = total (Summary (controls s)) + 1"
    if "Run (env s) check = (check2, w)"
      "summarizeLevel (summarize (controls s) (check2\<lparr>cTestInfo := ti\<rparr>)) (check2\<lparr>cTestInfo := ti\<rparr>) = Some c"
    for check check2 w ti c
  proof -
    from assms(2) have "terminal (cState (fst (Run (env s) check)))"
      unfolding endsTerminal_def by blast
    with that(1) have "terminal (cState (check2\<lparr>cTestInfo := ti\<rparr>))" by simp
    from total_summarize [OF this] summarizeLevel_frame(3) [OF that(2)] show ?thesis by simp
  qed
  from assms(1) show ?thesis
    by (auto simp: runChecksMatch_def Let_def one split: option.splits prod.splits)
qed


section \<open>The rebuilt shells\<close>

lemma addToShells_new:
  "gID grp \<notin> gID ` set ws \<Longrightarrow> addToShells ws (grp, ca) = ws @ [newShell grp ca]"
  by (induction ws) auto

lemma addToShells_old:
  "distinct (map gID ws) \<Longrightarrow> i < length ws \<Longrightarrow> gID (ws ! i) = gID grp \<Longrightarrow>
     addToShells ws (grp, ca) = ws[i := (ws ! i)\<lparr>gChecks := gChecks (ws ! i) @ [ca]\<rparr>]"
proof (induction ws arbitrary: i)
  case Nil
  then show ?case by simp
next
  case (Cons w ws)
  show ?case
  proof (cases i)
    case 0
    with Cons.prems show ?thesis by simp
  next
    case (Suc j)
    with Cons.prems have j: "j < length ws" "gID (ws ! j) = gID grp" by simp_all
    with Cons.prems have "gID w \<noteq> gID grp"
      by (metis distinct.simps(2) list.simps(9) nth_mem image_eqI list.set_map)
    with Cons.IH [of j] Cons.prems j Suc show ?thesis by simp
  qed
qed

lemma map_nth_update_distinct:
  assumes "distinct g" and "i < length g"
  shows "map ((!) (xs[g ! i := y])) g = (map ((!) xs) g)[i := xs[g ! i := y] ! (g ! i)]"
proof (rule nth_equalityI)
  show "length (map ((!) (xs[g ! i := y])) g) = length ((map ((!) xs) g)[i := xs[g ! i := y] ! (g ! i)])"
    by simp
next
  fix j assume "j < length (map ((!) (xs[g ! i := y])) g)"
  then have j: "j < length g" by simp
  show "map ((!) (xs[g ! i := y])) g ! j = (map ((!) xs) g)[i := xs[g ! i := y] ! (g ! i)] ! j"
  proof (cases "j = i")
    case True
    with j show ?thesis by simp
  next
    case False
    with assms j have "g ! j \<noteq> g ! i" by (simp add: nth_eq_iff_index_eq)
    with j False show ?thesis by simp
  qed
qed

lemma shellsInv_distinct_ids:
  assumes "shellsInv gheap0 g m gheap"
  shows "distinct (map gID (map ((!) gheap) g))"
proof -
  from assms have d: "distinct g"
    and mk: "\<And>k v. m k = Some v \<longleftrightarrow> v \<in> set g \<and> gID (gheap ! v) = k"
    unfolding shellsInv_def by blast+
  have "inj_on (\<lambda>a. gID (gheap ! a)) (set g)"
  proof (rule inj_onI)
    fix a b assume "a \<in> set g" "b \<in> set g" "gID (gheap ! a) = gID (gheap ! b)"
    with mk have "m (gID (gheap ! a)) = Some a" "m (gID (gheap ! a)) = Some b" by auto
    then show "a = b" by simp
  qed
  with d show ?thesis by (simp add: distinct_map comp_def)
qed

lemma runChecksMatch_sim:
  assumes ok: "runChecksMatch Run ga ca g m s = (None, g', m', s')"
    and inv: "shellsInv gheap0 g m (groups s)"
    and ga: "ga < length gheap0"
  shows "shellsInv gheap0 g' m' (groups s') \<and>
         map ((!) (groups s')) g' = addToShells (map ((!) (groups s)) g) (gheap0 ! ga, ca)"
proof -
  let ?h = "groups s"
  from inv have len: "length gheap0 \<le> length ?h" and tk: "take (length gheap0) ?h = gheap0"
    and dg: "distinct g" and rng: "\<And>a. a \<in> set g \<Longrightarrow> length gheap0 \<le> a \<and> a < length ?h"
    and mk: "\<And>k v. m k = Some v \<longleftrightarrow> v \<in> set g \<and> gID (?h ! v) = k"
    unfolding shellsInv_def by blast+
  from ga tk have own: "?h ! ga = gheap0 ! ga"
    by (metis nth_take)
  from runChecksMatch_groups [OF ok] ga len own
  consider (new) "m (gID (gheap0 ! ga)) = None" "g' = g @ [length ?h]"
      "m' = m(gID (gheap0 ! ga) \<mapsto> length ?h)" "groups s' = ?h @ [newShell (gheap0 ! ga) ca]"
    | (old) v where "m (gID (gheap0 ! ga)) = Some v" "v < length ?h" "g' = g" "m' = m"
      "groups s' = ?h[v := (?h ! v)\<lparr>gChecks := gChecks (?h ! v) @ [ca]\<rparr>]"
    by (auto simp: deref_Some)
  then show ?thesis
  proof cases
    case new
    let ?k = "gID (gheap0 ! ga)"
    have nok: "gID (?h ! a) \<noteq> ?k" if "a \<in> set g" for a
    proof
      assume "gID (?h ! a) = ?k"
      with that mk [of ?k a] have "m ?k = Some a" by simp
      with new(1) show False by simp
    qed
    have fresh: "?k \<notin> gID ` set (map ((!) ?h) g)"
      using nok by fastforce
    have same: "map ((!) (?h @ [newShell (gheap0 ! ga) ca])) g = map ((!) ?h) g"
      using rng by (simp add: nth_append)
    have abs: "map ((!) (groups s')) g' = addToShells (map ((!) ?h) g) (gheap0 ! ga, ca)"
      unfolding new(2,4) addToShells_new [OF fresh] using same by simp
    have inv': "shellsInv gheap0 g' m' (groups s')"
      unfolding shellsInv_def new(2,3,4)
    proof (intro conjI allI)
      show "length gheap0 \<le> length (?h @ [newShell (gheap0 ! ga) ca])" using len by simp
      show "take (length gheap0) (?h @ [newShell (gheap0 ! ga) ca]) = gheap0" using len tk by simp
      show "distinct (g @ [length ?h])" using dg rng by auto
      show "\<forall>a\<in>set (g @ [length ?h]). length gheap0 \<le> a \<and> a < length (?h @ [newShell (gheap0 ! ga) ca])"
        using rng len by (auto simp: less_Suc_eq)
    next
      fix k v
      have notin: "length ?h \<notin> set g" using rng by auto
      show "((m(?k \<mapsto> length ?h)) k = Some v) =
          (v \<in> set (g @ [length ?h]) \<and> gID ((?h @ [newShell (gheap0 ! ga) ca]) ! v) = k)"
      proof (cases "v = length ?h")
        case True
        have "m k \<noteq> Some (length ?h)" using mk [of k "length ?h"] notin by simp
        with True show ?thesis by (auto simp: newShell_def)
      next
        case False
        show ?thesis
        proof (cases "v \<in> set g")
          case True
          with rng have v: "v < length ?h" by blast
          from nok [OF True] have "k = ?k \<Longrightarrow> gID (?h ! v) \<noteq> k" by simp
          with True False v mk [of k v] show ?thesis by (auto simp: nth_append)
        next
          case False
          with \<open>v \<noteq> length ?h\<close> mk [of k v] new(1) show ?thesis by auto
        qed
      qed
    qed
    from inv' abs show ?thesis by blast
  next
    case old
    let ?k = "gID (gheap0 ! ga)"
    let ?y = "(?h ! v)\<lparr>gChecks := gChecks (?h ! v) @ [ca]\<rparr>"
    from old(1) mk have vg: "v \<in> set g" and vk: "gID (?h ! v) = ?k" by auto
    from vg obtain i where i: "i < length g" "g ! i = v" by (auto simp: in_set_conv_nth)
    have ids: "distinct (map gID (map ((!) ?h) g))"
      using shellsInv_distinct_ids [OF inv] .
    have "addToShells (map ((!) ?h) g) (gheap0 ! ga, ca) =
        (map ((!) ?h) g)[i := (map ((!) ?h) g ! i)\<lparr>gChecks := gChecks (map ((!) ?h) g ! i) @ [ca]\<rparr>]"
      using addToShells_old [OF ids, of i "gheap0 ! ga" ca] i vk by simp
    also have "\<dots> = (map ((!) ?h) g)[i := ?y]" using i by simp
    also have "\<dots> = map ((!) (?h[v := ?y])) g"
      using map_nth_update_distinct [OF dg i(1), of ?h ?y] i old(2) by simp
    finally have abs: "map ((!) (groups s')) g' = addToShells (map ((!) ?h) g) (gheap0 ! ga, ca)"
      unfolding old(3,5) by simp
    from rng vg have vlow: "length gheap0 \<le> v" by blast
    have inv': "shellsInv gheap0 g' m' (groups s')"
      unfolding shellsInv_def old(3,4,5)
    proof (intro conjI allI)
      show "length gheap0 \<le> length (?h[v := ?y])" using len by simp
      show "take (length gheap0) (?h[v := ?y]) = gheap0" using tk vlow by simp
      show "distinct g" by (rule dg)
      show "\<forall>a\<in>set g. length gheap0 \<le> a \<and> a < length (?h[v := ?y])" using rng by simp
    next
      fix k u
      have "gID (?h[v := ?y] ! u) = gID (?h ! u)"
        using old(2) by (cases "u = v") simp_all
      with mk show "(m k = Some u) = (u \<in> set g \<and> gID (?h[v := ?y] ! u) = k)" by simp
    qed
    from inv' abs show ?thesis by blast
  qed
qed


section \<open>RunChecks: the loops\<close>

lemma runChecksPost_nil:
  "shellsInv gheap0 g m (groups s) \<Longrightarrow> runChecksPost Run gheap0 [] g s g m s"
  by (simp add: runChecksPost_def)

lemma runChecksPost_append:
  assumes "runChecksPost Run gheap0 ms1 g s g1 m1 s1"
    and "runChecksPost Run gheap0 ms2 g1 s1 g2 m2 s2"
  shows "runChecksPost Run gheap0 (ms1 @ ms2) g s g2 m2 s2"
  using assms by (simp add: runChecksPost_def)

lemma runChecksMatch_post:
  assumes ok: "runChecksMatch Run ga ca g m s = (None, g', m', s')"
    and inv: "shellsInv gheap0 g m (groups s)"
    and ga: "ga < length gheap0"
    and keeps: "keepsID Run"
  shows "runChecksPost Run gheap0 [(gheap0 ! ga, ca)] g s g' m' s'"
  using runChecksMatch_sim [OF ok inv ga] runChecksMatch_checks [OF ok keeps]
    runChecksMatch_total [OF ok]
  by (simp add: runChecksPost_def)

lemma checkMatches_cong:
  fixes c1 c2 :: "'cmd Check list"
  assumes "map cID c1 = map cID c2"
  shows "checkMatches c1 ids ca = checkMatches c2 ids ca"
  using deref_map_eq [OF assms, of ca] by (auto simp: checkMatches_def split: option.splits)

lemma runChecksIds_post:
  assumes ok: "runChecksIds Run ga ca ids g m s = (None, g', m', s')"
    and inv: "shellsInv gheap0 g m (groups s)"
    and ga: "ga < length gheap0"
    and keeps: "keepsID Run"
  shows "runChecksPost Run gheap0 (map (Pair (gheap0 ! ga)) (checkMatches (checks s) ids ca)) g s g' m' s'"
  using ok inv
proof (induction ids arbitrary: g m s)
  case Nil
  then show ?case
    by (auto simp: checkMatches_def runChecksPost_nil split: option.splits)
next
  case (Cons i ids)
  from Cons.prems(1) obtain check where d: "deref (checks s) ca = Some check"
    by (auto split: option.splits)
  show ?case
  proof (cases "i = cID check")
    case False
    with Cons.prems(1) d have "runChecksIds Run ga ca ids g m s = (None, g', m', s')" by simp
    from Cons.IH [OF this Cons.prems(2)] d False show ?thesis
      by (simp add: checkMatches_def)
  next
    case True
    with Cons.prems(1) d obtain g1 m1 s1 where
      one: "runChecksMatch Run ga ca g m s = (None, g1, m1, s1)" and
      rest: "runChecksIds Run ga ca ids g1 m1 s1 = (None, g', m', s')"
      by (auto split: prod.splits option.splits)
    note P1 = runChecksMatch_post [OF one Cons.prems(2) ga keeps]
    then have inv1: "shellsInv gheap0 g1 m1 (groups s1)"
      and ids1: "map cID (checks s1) = map cID (checks s)"
      by (simp_all add: runChecksPost_def)
    from checkMatches_cong [OF ids1]
    have cm: "checkMatches (checks s1) ids ca = checkMatches (checks s) ids ca" .
    note P2 = Cons.IH [OF rest inv1, unfolded cm]
    have "checkMatches (checks s) (i # ids) ca = ca # checkMatches (checks s) ids ca"
      using d True by (simp add: checkMatches_def)
    then have "map (Pair (gheap0 ! ga)) (checkMatches (checks s) (i # ids) ca) =
        [(gheap0 ! ga, ca)] @ map (Pair (gheap0 ! ga)) (checkMatches (checks s) ids ca)"
      by simp
    with runChecksPost_append [OF P1 P2] show ?thesis by simp
  qed
qed

lemma runChecksOfGroup_post:
  assumes ok: "runChecksOfGroup Run ids ga cas g m s = (None, g', m', s')"
    and inv: "shellsInv gheap0 g m (groups s)"
    and ga: "ga < length gheap0"
    and keeps: "keepsID Run"
  shows "runChecksPost Run gheap0
           (map (Pair (gheap0 ! ga)) (concat (map (checkMatches (checks s) ids) cas))) g s g' m' s'"
  using ok inv
proof (induction cas arbitrary: g m s)
  case Nil
  then show ?case by (simp add: runChecksPost_nil)
next
  case (Cons ca cas)
  from Cons.prems(1) obtain g1 m1 s1 where
    one: "runChecksIds Run ga ca ids g m s = (None, g1, m1, s1)" and
    rest: "runChecksOfGroup Run ids ga cas g1 m1 s1 = (None, g', m', s')"
    by (auto split: prod.splits option.splits)
  note P1 = runChecksIds_post [OF one Cons.prems(2) ga keeps]
  then have inv1: "shellsInv gheap0 g1 m1 (groups s1)"
    and ids1: "map cID (checks s1) = map cID (checks s)"
    by (simp_all add: runChecksPost_def)
  have cm: "checkMatches (checks s1) ids = checkMatches (checks s) ids"
    using checkMatches_cong [OF ids1] by (rule ext)
  note P2 = Cons.IH [OF rest inv1, unfolded cm]
  from runChecksPost_append [OF P1 P2] show ?case by simp
qed

lemma selectedChecks_cong:
  fixes c1 c2 :: "'cmd Check list"
  assumes "map cID c1 = map cID c2"
  shows "selectedChecks gheap c1 ids gas = selectedChecks gheap c2 ids gas"
proof -
  have "checkMatches c1 ids = checkMatches c2 ids"
    using checkMatches_cong [OF assms] by (rule ext)
  then have "groupMatches c1 ids = groupMatches c2 ids"
    by (intro ext) (simp add: groupMatches_def)
  then show ?thesis by (induction gas) (simp_all split: option.splits)
qed

lemma runChecksGroups_post:
  assumes ok: "runChecksGroups Run ids (length gheap0) gas g m s = (None, g', m', s')"
    and inv: "shellsInv gheap0 g m (groups s)"
    and keeps: "keepsID Run"
  shows "runChecksPost Run gheap0 (selectedChecks gheap0 (checks s) ids gas) g s g' m' s'"
  using ok inv
proof (induction gas arbitrary: g m s)
  case Nil
  then show ?case by (simp add: runChecksPost_nil)
next
  case (Cons ga gas)
  from Cons.prems(1) have ga: "ga < length gheap0"
    by (auto split: if_splits)
  from Cons.prems(2) have "take (length gheap0) (groups s) = gheap0"
    "length gheap0 \<le> length (groups s)"
    by (simp_all add: shellsInv_def)
  with ga have own: "deref (groups s) ga = Some (gheap0 ! ga)"
    by (metis deref_Some nth_take less_le_trans)
  from ga have own0: "deref gheap0 ga = Some (gheap0 ! ga)" by (simp add: deref_Some)
  from Cons.prems(1) own ga obtain g1 m1 s1 where
    one: "runChecksOfGroup Run ids ga (gChecks (gheap0 ! ga)) g m s = (None, g1, m1, s1)" and
    rest: "runChecksGroups Run ids (length gheap0) gas g1 m1 s1 = (None, g', m', s')"
    by (auto split: prod.splits option.splits)
  note P1 = runChecksOfGroup_post [OF one Cons.prems(2) ga keeps]
  then have inv1: "shellsInv gheap0 g1 m1 (groups s1)"
    and ids1: "map cID (checks s1) = map cID (checks s)"
    by (simp_all add: runChecksPost_def)
  note P2 = Cons.IH [OF rest inv1, unfolded selectedChecks_cong [OF ids1]]
  from runChecksPost_append [OF P1 P2] own0 show ?case
    by (simp add: groupMatches_def)
qed

lemma RunChecks_success:
  assumes "RunChecks Run ids s = (Returned sm None, s')"
  shows "\<exists>g m s2.
           runChecksGroups Run (effectiveIds ids s) (length (groups s)) (Groups (controls s))
             [] Map.empty
             (s\<lparr>controls := resetSummaries (controls s)\<rparr>) = (None, g, m, s2) \<and>
           s' = s2\<lparr>controls := (controls s2)\<lparr>Groups := g\<rparr>\<rparr> \<and> sm = Summary (controls s2)"
  using assms
  by (auto simp: RunChecks_def Let_def effectiveIds_def resetSummaries_frame
      split: option.splits if_splits prod.splits abort.splits)

lemma shellsInv_start: "shellsInv gheap [] Map.empty gheap"
  by (simp add: shellsInv_def)

lemma RunChecks_post:
  assumes ret: "RunChecks Run ids s = (Returned sm None, s')"
    and keeps: "keepsID Run"
  shows "\<exists>m. shellsInv (groups s) (Groups (controls s')) m (groups s')"
    and "map ((!) (groups s')) (Groups (controls s')) = rebuiltShells ids s"
    and "endsTerminal Run \<Longrightarrow> total sm = int (executionsByCheck ids s)"
proof -
  let ?s1 = "s\<lparr>controls := resetSummaries (controls s)\<rparr>"
  from RunChecks_success [OF ret] obtain g m s2 where
    loop: "runChecksGroups Run (effectiveIds ids s) (length (groups s)) (Groups (controls s))
      [] Map.empty ?s1 = (None, g, m, s2)" and
    s': "s' = s2\<lparr>controls := (controls s2)\<lparr>Groups := g\<rparr>\<rparr>" and
    sm: "sm = Summary (controls s2)" by blast
  have inv0: "shellsInv (groups s) [] Map.empty (groups ?s1)"
    by (simp add: shellsInv_start)
  from runChecksGroups_post [OF loop inv0 keeps]
  have P: "runChecksPost Run (groups s)
      (selectedChecks (groups s) (checks s) (effectiveIds ids s) (Groups (controls s)))
      [] ?s1 g m s2" by simp
  from P s' show "\<exists>m. shellsInv (groups s) (Groups (controls s')) m (groups s')"
    by (auto simp: runChecksPost_def)
  from P s' show "map ((!) (groups s')) (Groups (controls s')) = rebuiltShells ids s"
    by (simp add: runChecksPost_def rebuiltShells_def)
  have z: "total zeroSummary = 0" by (simp add: total_def zeroSummary_def)
  from P sm z show "total sm = int (executionsByCheck ids s)" if "endsTerminal Run"
    using that by (simp add: runChecksPost_def executionsByCheck_def resetSummaries_frame)
qed

section \<open>RunGroup: group counters and executions\<close>

lemma executionsIn_simps:
  "executionsIn [] a st = 0"
  "executionsIn (e # log) a st = (if fst e = a \<and> snd (snd e) = st then 1 else 0) + executionsIn log a st"
  "executionsIn (xs @ ys) a st = executionsIn xs a st + executionsIn ys a st"
  by (simp_all add: executionsIn_def)

lemma runGroupCheck_step:
  assumes "runGroupCheck Run u ga ca s = (None, s')"
  shows "\<exists>check3 grp. deref (checks s) ca = Some (checks s ! ca) \<and> deref (groups s) ga = Some grp \<and>
           deref (checks s') ca = Some check3 \<and> checks s' = (checks s)[ca := check3] \<and>
           groups s' = (groups s)[ga := summarizeGroup grp check3]"
  using assms
  by (auto simp: runGroupCheck_def Let_def deref_Some split: option.splits prod.splits)

lemma groupCounter_summarizeGroup:
  "terminal st \<Longrightarrow>
     groupCounter st (summarizeGroup grp check) =
       groupCounter st grp + (if cState check = st then 1 else 0)"
  by (cases st; cases "cState check") (simp_all add: summarizeGroup_def terminal_def)

lemma runGroupCheck_counter:
  assumes ok: "runGroupCheck Run u ga ca s = (None, s')" and st: "terminal st"
  shows "counterAt st (groups s') a =
           counterAt st (groups s) a + (if a = ga \<and> cState (checks s' ! ca) = st then 1 else 0)"
proof -
  from runGroupCheck_step [OF ok] obtain check3 grp where
    c: "deref (checks s) ca = Some (checks s ! ca)" and g: "deref (groups s) ga = Some grp" and
    cs: "checks s' = (checks s)[ca := check3]" and
    gs: "groups s' = (groups s)[ga := summarizeGroup grp check3]" by blast
  from c cs have here: "checks s' ! ca = check3" by (simp add: deref_Some)
  from g gs groupCounter_summarizeGroup [OF st, of grp check3] here
  show ?thesis
    by (auto simp: counterAt_def deref_def nth_list_update split: if_splits)
qed

lemma checksLog_counter:
  assumes "runGroupChecks Run u ga cas s = (b, s')" and "b \<noteq> Some Panic" and st: "terminal st"
  shows "counterAt st (groups s') a =
           counterAt st (groups s) a + of_nat (executionsIn (checksLog Run u ga cas s) a st)"
  using assms(1,2)
proof (induction cas arbitrary: s)
  case Nil
  then show ?case by (simp add: executionsIn_simps)
next
  case (Cons ca cas)
  obtain c t where step: "runGroupCheck Run u ga ca s = (c, t)"
    by (cases "runGroupCheck Run u ga ca s")
  show ?case
  proof (cases c)
    case None
    with Cons.prems step have rest: "runGroupChecks Run u ga cas t = (b, s')" by simp
    from runGroupCheck_counter [OF step [unfolded None] st, of a] Cons.IH [OF rest Cons.prems(2)]
      step None
    show ?thesis by (simp add: executionsIn_simps)
  next
    case (Some x)
    with Cons.prems step have b: "b = Some x" "s' = t" by simp_all
    with Cons.prems(2) obtain e where "x = Failed e" by (cases x) auto
    with runGroupCheck_Failed [of Run u ga ca s e t] step Some have "t = s" by simp
    with b step Some show ?thesis by (simp add: executionsIn_simps)
  qed
qed

lemma gidsLog_counter:
  assumes "runGroupGids Run u ga gids g s = (b, g', s')" and "b \<noteq> Some Panic" and st: "terminal st"
  shows "counterAt st (groups s') a =
           counterAt st (groups s) a + of_nat (executionsIn (gidsLog Run u ga gids g s) a st)"
  using assms(1,2)
proof (induction gids arbitrary: g s)
  case Nil
  then show ?case by (simp add: executionsIn_simps)
next
  case (Cons gid gids)
  from Cons.prems obtain grp where d: "deref (groups s) ga = Some grp"
    by (auto split: option.splits)
  show ?case
  proof (cases "gid = gID grp")
    case False
    with Cons.prems d have "runGroupGids Run u ga gids g s = (b, g', s')" by simp
    from Cons.IH [OF this Cons.prems(2)] d False show ?thesis by simp
  next
    case True
    obtain c t where loop: "runGroupChecks Run u ga (gChecks grp) s = (c, t)"
      by (cases "runGroupChecks Run u ga (gChecks grp) s")
    show ?thesis
    proof (cases c)
      case None
      with Cons.prems d True loop
      have rest: "runGroupGids Run u ga gids (g @ [ga]) t = (b, g', s')" by simp
      from checksLog_counter [OF loop _ st, of a] None Cons.IH [OF rest Cons.prems(2)]
        d True loop
      show ?thesis by (simp add: executionsIn_simps)
    next
      case (Some x)
      with Cons.prems d True loop have b: "b = Some x" "s' = t" by simp_all
      with Cons.prems(2) have "c \<noteq> Some Panic" using Some by simp
      from checksLog_counter [OF loop this st, of a] b d True loop Some
      show ?thesis by (simp add: executionsIn_simps)
    qed
  qed
qed

lemma groupsLog_counter:
  assumes "runGroups Run u gids gas g s = (b, g', s')" and "b \<noteq> Some Panic" and st: "terminal st"
  shows "counterAt st (groups s') a =
           counterAt st (groups s) a + of_nat (executionsIn (groupsLog Run u gids gas g s) a st)"
  using assms(1,2)
proof (induction gas arbitrary: g s)
  case Nil
  then show ?case by (simp add: executionsIn_simps)
next
  case (Cons ga gas)
  obtain c h t where one: "runGroupGids Run u ga gids g s = (c, h, t)"
    by (cases "runGroupGids Run u ga gids g s")
  show ?case
  proof (cases c)
    case None
    with Cons.prems one have rest: "runGroups Run u gids gas h t = (b, g', s')" by simp
    from gidsLog_counter [OF one _ st, of a] None Cons.IH [OF rest Cons.prems(2)] one
    show ?thesis by (simp add: executionsIn_simps)
  next
    case (Some x)
    with Cons.prems one have b: "b = Some x" "s' = t" by simp_all
    with Cons.prems(2) have "c \<noteq> Some Panic" using Some by simp
    from gidsLog_counter [OF one this st, of a] b one Some
    show ?thesis by (simp add: executionsIn_simps)
  qed
qed

lemma RunGroup_returned:
  assumes "RunGroup Run gids s = (Returned sm r, s')"
  shows "(ParseUint (UserCISLevel (controls s)) = None \<and> groups s' = groups s \<and> checks s' = checks s)
       \<or> (\<exists>u b g s2. ParseUint (UserCISLevel (controls s)) = Some u \<and>
             runGroups Run u (effectiveGids gids s) (Groups (controls s)) []
               (s\<lparr>controls := resetSummaries (controls s)\<rparr>) = (b, g, s2) \<and>
             b \<noteq> Some Panic \<and> groups s' = groups s2 \<and> checks s' = checks s2)"
  using assms
  by (auto simp: RunGroup_def Let_def effectiveGids_def resetSummaries_frame
      split: option.splits if_splits prod.splits abort.splits)

lemma RunGroup_counter:
  assumes "RunGroup Run gids s = (Returned sm r, s')" and st: "terminal st"
  shows "counterAt st (groups s') a =
           counterAt st (groups s) a + of_nat (executionsIn (executions Run gids s) a st)"
proof -
  from RunGroup_returned [OF assms(1)] show ?thesis
  proof
    assume "ParseUint (UserCISLevel (controls s)) = None \<and> groups s' = groups s \<and> checks s' = checks s"
    then show ?thesis by (simp add: executions_def executionsIn_simps)
  next
    assume "\<exists>u b g s2. ParseUint (UserCISLevel (controls s)) = Some u \<and>
             runGroups Run u (effectiveGids gids s) (Groups (controls s)) []
               (s\<lparr>controls := resetSummaries (controls s)\<rparr>) = (b, g, s2) \<and>
             b \<noteq> Some Panic \<and> groups s' = groups s2 \<and> checks s' = checks s2"
    then obtain u b g s2 where u: "ParseUint (UserCISLevel (controls s)) = Some u" and
      loop: "runGroups Run u (effectiveGids gids s) (Groups (controls s)) []
               (s\<lparr>controls := resetSummaries (controls s)\<rparr>) = (b, g, s2)" and
      b: "b \<noteq> Some Panic" and g: "groups s' = groups s2" by blast
    from groupsLog_counter [OF loop b st, of a] u g show ?thesis
      by (simp add: executions_def)
  qed
qed


section \<open>RunGroup: group counters and member checks\<close>

lemma runGroupCheck_checks_frame:
  assumes "runGroupCheck Run u ga ca s = (b, s')" and "c \<noteq> ca"
  shows "deref (checks s') c = deref (checks s) c"
  using assms
  by (auto simp: runGroupCheck_def Let_def deref_def split: option.splits prod.splits if_splits)

lemma runGroupChecks_checks_frame:
  assumes "runGroupChecks Run u ga cas s = (b, s')" and "c \<notin> set cas"
  shows "deref (checks s') c = deref (checks s) c"
  using assms
proof (induction cas arbitrary: s)
  case Nil
  then show ?case by simp
next
  case (Cons ca cas)
  obtain x t where step: "runGroupCheck Run u ga ca s = (x, t)"
    by (cases "runGroupCheck Run u ga ca s")
  from Cons.prems(2) have ne: "c \<noteq> ca" and nin: "c \<notin> set cas" by auto
  note F = runGroupCheck_checks_frame [OF step ne]
  show ?case
  proof (cases x)
    case None
    with Cons.prems(1) step have "runGroupChecks Run u ga cas t = (b, s')" by simp
    from Cons.IH [OF this nin] F show ?thesis by simp
  next
    case (Some y)
    with Cons.prems(1) step have "s' = t" by simp
    with F show ?thesis by simp
  qed
qed

lemma runGroupChecks_members:
  assumes "runGroupChecks Run u ga cas s = (None, s')" and "distinct cas" and st: "terminal st"
  shows "counterAt st (groups s') a =
           counterAt st (groups s) a +
           (if a = ga
            then of_nat (length (filter (\<lambda>ca. stateAt (checks s') ca = Some st) cas))
            else 0)"
  using assms(1,2)
proof (induction cas arbitrary: s)
  case Nil
  then show ?case by simp
next
  case (Cons ca cas)
  from Cons.prems(1) obtain t where step: "runGroupCheck Run u ga ca s = (None, t)"
    and rest: "runGroupChecks Run u ga cas t = (None, s')"
    by (auto split: prod.splits option.splits)
  from Cons.prems(2) have nin: "ca \<notin> set cas" and d: "distinct cas" by auto
  from runGroupCheck_step [OF step] have "deref (checks t) ca = Some (checks t ! ca)"
    by (auto simp: deref_Some)
  with runGroupChecks_checks_frame [OF rest nin]
  have fin: "stateAt (checks s') ca = Some (cState (checks t ! ca))" by (simp add: stateAt_def)
  from runGroupCheck_counter [OF step st, of a] Cons.IH [OF rest d] fin
  show ?case by simp
qed

lemma runGroupGids_nomatch:
  assumes "deref (groups s) ga = Some grp" and "gID grp \<notin> set gids"
  shows "runGroupGids Run u ga gids g s = (None, g, s)"
  using assms by (induction gids) auto

lemma runGroupGids_checks_frame:
  assumes "runGroupGids Run u ga gids g s = (b, g', s')" and "c \<notin> set (checksAt (groups s) ga)"
  shows "deref (checks s') c = deref (checks s) c"
  using assms
proof (induction gids arbitrary: g s)
  case Nil
  then show ?case by simp
next
  case (Cons gid gids)
  show ?case
  proof (cases "deref (groups s) ga")
    case None
    with Cons.prems(1) show ?thesis by simp
  next
    case (Some grp)
    show ?thesis
    proof (cases "gid = gID grp")
      case False
      with Cons.prems(1) Some have "runGroupGids Run u ga gids g s = (b, g', s')" by simp
      from Cons.IH [OF this Cons.prems(2)] show ?thesis .
    next
      case True
      obtain x t where loop: "runGroupChecks Run u ga (gChecks grp) s = (x, t)"
        by (cases "runGroupChecks Run u ga (gChecks grp) s")
      from Cons.prems(2) Some have nin: "c \<notin> set (gChecks grp)" by (simp add: checksAt_def)
      note F = runGroupChecks_checks_frame [OF loop nin]
      from runGroupChecks_shape [OF loop] have
        same: "checksAt (groups t) ga = checksAt (groups s) ga"
        using checksAt_cong by blast
      show ?thesis
      proof (cases x)
        case None
        with Cons.prems(1) Some True loop
        have rest: "runGroupGids Run u ga gids (g @ [ga]) t = (b, g', s')" by simp
        from Cons.IH [OF rest] Cons.prems(2) same F show ?thesis by simp
      next
        case (Some y)
        with Cons.prems(1) \<open>deref (groups s) ga = Some grp\<close> True loop have "s' = t" by simp
        with F show ?thesis by simp
      qed
    qed
  qed
qed

lemma runGroups_checks_frame:
  assumes "runGroups Run u gids gas g s = (b, g', s')"
    and "c \<notin> set (concat (map (checksAt (groups s)) gas))"
  shows "deref (checks s') c = deref (checks s) c"
  using assms
proof (induction gas arbitrary: g s)
  case Nil
  then show ?case by simp
next
  case (Cons ga gas)
  obtain x h t where one: "runGroupGids Run u ga gids g s = (x, h, t)"
    by (cases "runGroupGids Run u ga gids g s")
  from Cons.prems(2) have n1: "c \<notin> set (checksAt (groups s) ga)"
    and n2: "c \<notin> set (concat (map (checksAt (groups s)) gas))" by auto
  note F = runGroupGids_checks_frame [OF one n1]
  from runGroupGids_shape [OF one] have same: "checksAt (groups t) = checksAt (groups s)"
    using checksAt_cong by blast
  show ?case
  proof (cases x)
    case None
    with Cons.prems(1) one have rest: "runGroups Run u gids gas h t = (b, g', s')" by simp
    from Cons.IH [OF rest] n2 same F show ?thesis by simp
  next
    case (Some y)
    with Cons.prems(1) one have "s' = t" by simp
    with F show ?thesis by simp
  qed
qed

lemma runGroupGids_members:
  assumes "runGroupGids Run u ga gids g s = (None, g', s')" and "distinct gids"
    and dc: "distinct (checksAt (groups s) ga)" and st: "terminal st"
  shows "counterAt st (groups s') a =
           counterAt st (groups s) a +
           (if a \<in> set (selectedGroups (groups s) gids [ga])
            then of_nat (length (filter (\<lambda>ca. stateAt (checks s') ca = Some st)
                   (checksAt (groups s) a)))
            else 0)"
  using assms(1,2)
proof (induction gids arbitrary: g)
  case Nil
  then show ?case by (simp split: option.splits)
next
  case (Cons gid gids)
  from Cons.prems(1) obtain grp where d: "deref (groups s) ga = Some grp"
    by (auto split: option.splits)
  from Cons.prems(2) have nin: "gid \<notin> set gids" and dg: "distinct gids" by auto
  show ?case
  proof (cases "gid = gID grp")
    case False
    with Cons.prems(1) d have "runGroupGids Run u ga gids g s = (None, g', s')" by simp
    from Cons.IH [OF this dg] d False show ?thesis by simp
  next
    case True
    with Cons.prems(1) d obtain t where
      loop: "runGroupChecks Run u ga (gChecks grp) s = (None, t)" and
      rest: "runGroupGids Run u ga gids (g @ [ga]) t = (None, g', s')"
      by (auto split: prod.splits option.splits)
    from runGroupChecks_shape [OF loop] have "map gID (groups t) = map gID (groups s)" by simp
    from deref_map_eq [OF this, of ga] d obtain grp' where
      d': "deref (groups t) ga = Some grp'" and id': "gID grp' = gID grp" by auto
    from nin True id' have "gID grp' \<notin> set gids" by simp
    from runGroupGids_nomatch [OF d' this, of Run u "g @ [ga]"] rest have s': "s' = t" by simp
    have here: "checksAt (groups s) ga = gChecks grp" using d by (simp add: checksAt_def)
    from dc here have dcs: "distinct (gChecks grp)" by simp
    have sel: "set (selectedGroups (groups s) (gid # gids) [ga]) = {ga}"
      using d True by auto
    from runGroupChecks_members [OF loop dcs st, of a] s' here
    show ?thesis unfolding sel by simp
  qed
qed

lemma selectedGroups_subset: "set (selectedGroups gheap gids gas) \<subseteq> set gas"
  by (induction gas) (auto split: option.splits)

lemma runGroups_members:
  assumes "runGroups Run u gids gas g s = (None, g', s')" and dg: "distinct gids"
    and "distinct gas" and "distinct (concat (map (checksAt (groups s)) gas))"
    and st: "terminal st"
  shows "counterAt st (groups s') a =
           counterAt st (groups s) a +
           (if a \<in> set (selectedGroups (groups s) gids gas)
            then of_nat (length (filter (\<lambda>ca. stateAt (checks s') ca = Some st)
                   (checksAt (groups s) a)))
            else 0)"
  using assms(1,3,4)
proof (induction gas arbitrary: g s)
  case Nil
  then show ?case by simp
next
  case (Cons ga gas)
  from Cons.prems(1) obtain h t where
    one: "runGroupGids Run u ga gids g s = (None, h, t)" and
    rest: "runGroups Run u gids gas h t = (None, g', s')"
    by (auto split: prod.splits option.splits)
  note sh = runGroupGids_shape [OF one]
  from sh have sel: "selectedGroups (groups t) gids gas = selectedGroups (groups s) gids gas"
    using selectedGroups_cong by blast
  from sh have chk: "checksAt (groups t) = checksAt (groups s)"
    using checksAt_cong by blast
  from Cons.prems(2) have nin: "ga \<notin> set gas" and dgas: "distinct gas" by auto
  from Cons.prems(3) have dc: "distinct (checksAt (groups s) ga)"
    and dcs: "distinct (concat (map (checksAt (groups s)) gas))"
    and disj: "set (checksAt (groups s) ga) \<inter> set (concat (map (checksAt (groups s)) gas)) = {}"
    by auto
  note A = runGroupGids_members [OF one dg dc st, of a]
  note B = Cons.IH [OF rest dgas, unfolded sel chk, OF dcs]
  have split: "selectedGroups (groups s) gids (ga # gas) =
      selectedGroups (groups s) gids [ga] @ selectedGroups (groups s) gids gas"
    using selectedGroups_append [of "groups s" gids "[ga]" gas] by simp
  have one_sub: "set (selectedGroups (groups s) gids [ga]) \<subseteq> {ga}"
    using selectedGroups_subset [of "groups s" gids "[ga]"] by simp
  have rest_sub: "set (selectedGroups (groups s) gids gas) \<subseteq> set gas"
    by (rule selectedGroups_subset)
  have keep: "stateAt (checks s') c = stateAt (checks t) c" if "c \<in> set (checksAt (groups s) ga)" for c
  proof -
    from that disj have "c \<notin> set (concat (map (checksAt (groups t)) gas))"
      unfolding chk by blast
    from runGroups_checks_frame [OF rest this] show ?thesis by (simp add: stateAt_def)
  qed
  have same: "filter (\<lambda>ca. stateAt (checks s') ca = Some st) (checksAt (groups s) ga) =
      filter (\<lambda>ca. stateAt (checks t) ca = Some st) (checksAt (groups s) ga)"
    by (rule filter_cong) (simp_all add: keep)
  define X where "X = set (selectedGroups (groups s) gids [ga])"
  define Y where "Y = set (selectedGroups (groups s) gids gas)"
  define nt where "nt = length (filter (\<lambda>ca. stateAt (checks t) ca = Some st) (checksAt (groups s) a))"
  define ns where "ns = length (filter (\<lambda>ca. stateAt (checks s') ca = Some st) (checksAt (groups s) a))"
  from A have A': "counterAt st (groups t) a =
      counterAt st (groups s) a + (if a \<in> X then of_nat nt else 0)"
    unfolding X_def nt_def .
  from B have B': "counterAt st (groups s') a =
      counterAt st (groups t) a + (if a \<in> Y then of_nat ns else 0)"
    unfolding Y_def ns_def .
  from one_sub have X: "a \<in> X \<Longrightarrow> a = ga" unfolding X_def by blast
  from rest_sub nin have Y: "a \<in> Y \<Longrightarrow> a \<noteq> ga" unfolding Y_def by blast
  from same have n: "a = ga \<Longrightarrow> ns = nt" unfolding ns_def nt_def by simp
  have "counterAt st (groups s') a =
      counterAt st (groups s) a + (if a \<in> X \<union> Y then of_nat ns else 0)"
    using A' B' X Y n by auto
  then show ?case unfolding split X_def Y_def ns_def by simp
qed

lemma RunGroup_members:
  assumes ok: "RunGroup Run gids s = (Returned sm None, s')"
    and dg: "distinct (effectiveGids gids s)" and ns: "noSharing s" and st: "terminal st"
  shows "counterAt st (groups s') a =
           counterAt st (groups s) a +
           (if a \<in> set (Groups (controls s')) then of_nat (membersIn st s' a) else 0)"
proof -
  let ?s1 = "s\<lparr>controls := resetSummaries (controls s)\<rparr>"
  from RunGroup_success [OF ok] obtain u g s2 where
    loop: "runGroups Run u (effectiveGids gids s) (Groups (controls s)) [] ?s1 = (None, g, s2)" and
    s': "s' = s2\<lparr>controls := (controls s2)\<lparr>Groups := g\<rparr>\<rparr>" by blast
  from ns have d1: "distinct (Groups (controls s))"
    and d2: "distinct (concat (map (checksAt (groups ?s1)) (Groups (controls s))))"
    by (simp_all add: noSharing_def)
  from runGroups_shape [OF loop] s' have chk: "checksAt (groups s') = checksAt (groups s)"
    using checksAt_cong [of "groups s2" "groups s"] by auto
  from runGroups_members [OF loop dg d1 d2 st, of a] RunGroup_selected [OF ok] s' chk
  show ?thesis by (simp add: membersIn_def)
qed

section \<open>C1: level gating in RunGroup\<close>

text \<open>
  C1. The claim: a check whose required level is above the user-selected level ends
  RunGroup in state SKIP and its Check.Run is never invoked. RunGroup sets the state to
  SKIP (line 110) and then calls \<open>check.Run()\<close> all the same (line 112). In the example
  catalog the user level parses to 1 and check "1.2" requires level 2; after
  \<open>RunGroup("1")\<close> the host shows that the audit of "1.2" has run, the state of "1.2" is
  the PASS that Run left, and the returned Summary counts two passes and no skip.
\<close>

theorem C1_gated_check_still_runs:
  "ParseUint (UserCISLevel (controls demoWorld)) = Some 1 \<and>
   map_option (\<lambda>c. ParseUint (CheckCISLevel c)) (deref (checks demoWorld) 1) = Some (Some 2) \<and>
   (case RunGroup auditPasses [''1''] demoWorld of
      (r, s) \<Rightarrow>
        r = Returned \<lparr>Pass = 2, Fail = 0, Warn = 0, Info = 0, Skip = 0\<rparr> None \<and>
        env s = [''1.1'', ''1.2''] \<and>
        map cState (checks s) = [PASS, PASS])"
  by (simp add: demo_defs run_defs)

section \<open>C3: the three summary views\<close>

text \<open>
  C3. The claim: in RunGroup and in RunChecks every executed check updates the global
  Summary, the counters of its group and the level-keyed Summary, so after RunChecks
  the counters of a rebuilt group reflect the states of its checks. RunGroup calls
  summarizeGroup (line 115); RunChecks calls summarize and summarizeLevel only.
  In the example catalog \<open>RunChecks("1.1")\<close> passes check "1.1" and counts it in the
  global Summary, and the one rebuilt group holds that check with all five counters zero.
\<close>

theorem C3_RunChecks_skips_group_counters:
  "(case RunChecks auditPasses [''1.1''] demoWorld of
      (r, s) \<Rightarrow>
        r = Returned \<lparr>Pass = 1, Fail = 0, Warn = 0, Info = 0, Skip = 0\<rparr> None \<and>
        Groups (controls s) = [1] \<and>
        deref (groups s) 1 =
          Some \<lparr>gID = ''1'', gPass = 0, gFail = 0, gWarn = 0, gSkip = 0, gInfo = 0,
                gText = ''Master Node'', gChecks = [0]\<rparr> \<and>
        map_option cState (deref (checks s) 0) = Some PASS)"
  by (simp add: demo_defs run_defs)

section \<open>C6: summaries do not carry over\<close>




section \<open>C4: the level-keyed entry\<close>

text \<open>
  C4, as claimed, fails: "3" parses as a level, a run creates the entries "1" and "2" only,
  and the fold of a passed check of level "3" finds no entry and panics; so does
  RunGroup on a catalog holding such a check, run at user level "3".
\<close>

theorem C4_counterexample:
  "ParseUint ''3'' = Some 3 \<and>
   summarizeLevel (resetSummaries emptyControls) ((demoCheck ''1.1'' ''3'')\<lparr>cState := PASS\<rparr>) = None \<and>
   fst (RunGroup auditPasses [''1''] level3World) = Panicked"
  by (simp add: demo_defs run_defs)

lemma summarizeLevel_countState:
  "SummaryLevelWise c (CheckCISLevel check) = Some e \<Longrightarrow> terminal (cState check) \<Longrightarrow>
     summarizeLevel c check =
       Some (c\<lparr>SummaryLevelWise :=
                 (SummaryLevelWise c)(CheckCISLevel check \<mapsto> countState (cState check) e)\<rparr>)"
  by (auto simp: summarizeLevel_def terminal_def)

lemma total_countState: "terminal st \<Longrightarrow> total (countState st e) = total e + 1"
  by (auto simp: terminal_def total_def)

lemma resetSummaries_entries:
  "SummaryLevelWise (resetSummaries c) k =
     (if k = ''1'' \<or> k = ''2'' then Some zeroSummary else None)"
  by (simp add: resetSummaries_def)

lemma summarizeLevel_dom:
  "summarizeLevel c check = Some c' \<Longrightarrow> dom (SummaryLevelWise c') = dom (SummaryLevelWise c)"
  by (auto simp: summarizeLevel_def Let_def split: State.splits option.splits if_splits)

text \<open>
  C4, amended. For a check in one of the five states whose required-level string is "1"
  or "2", the two entries a run creates (and the only keys of the map during a run), the
  lookup succeeds and summarizeLevel adds one, in the counter of the check's state, to the
  entry keyed by the check's own required-level string; the user-selected level plays no
  part and every other entry is left as it was.
\<close>

theorem C4_level_entry_is_the_checks_own:
  assumes "terminal (cState check)"
    and "CheckCISLevel check = ''1'' \<or> CheckCISLevel check = ''2''"
    and "dom (SummaryLevelWise c) = {''1'', ''2''}"
  shows "\<exists>e. SummaryLevelWise c (CheckCISLevel check) = Some e \<and>
           summarizeLevel c check =
             Some (c\<lparr>SummaryLevelWise :=
                       (SummaryLevelWise c)(CheckCISLevel check \<mapsto> countState (cState check) e)\<rparr>) \<and>
           total (countState (cState check) e) = total e + 1"
proof -
  from assms(2,3) have "CheckCISLevel check \<in> dom (SummaryLevelWise c)" by auto
  then obtain e where e: "SummaryLevelWise c (CheckCISLevel check) = Some e" by auto
  from summarizeLevel_countState [OF e assms(1)] total_countState [OF assms(1)] e
  show ?thesis by blast
qed

text \<open>Witness: user level "1", check "1.2" of level "2" in state SKIP.\<close>

theorem C4_level_entry_witness:
  "\<exists>e. SummaryLevelWise (resetSummaries (emptyControls\<lparr>UserCISLevel := ''1''\<rparr>)) ''2'' = Some e \<and>
     summarizeLevel (resetSummaries (emptyControls\<lparr>UserCISLevel := ''1''\<rparr>))
         ((demoCheck ''1.2'' ''2'')\<lparr>cState := SKIP\<rparr>) =
       Some ((resetSummaries (emptyControls\<lparr>UserCISLevel := ''1''\<rparr>))
              \<lparr>SummaryLevelWise :=
                 (SummaryLevelWise (resetSummaries (emptyControls\<lparr>UserCISLevel := ''1''\<rparr>)))
                   (''2'' \<mapsto> countState SKIP e)\<rparr>) \<and>
     total (countState SKIP e) = total e + 1"
proof -
  let ?check = "(demoCheck ''1.2'' ''2'')\<lparr>cState := SKIP\<rparr>"
  let ?c = "resetSummaries (emptyControls\<lparr>UserCISLevel := ''1''\<rparr>)"
  have h1: "terminal (cState ?check)"
    by (simp add: terminal_def demoCheck_def)
  have h2: "CheckCISLevel ?check = ''1'' \<or> CheckCISLevel ?check = ''2''"
    by (simp add: demoCheck_def)
  have h3: "dom (SummaryLevelWise ?c) = {''1'', ''2''}"
    by (auto simp: resetSummaries_def split: if_splits)
  have lvl: "CheckCISLevel ?check = ''2''" and st: "cState ?check = SKIP"
    by (simp_all add: demoCheck_def)
  show ?thesis
    using C4_level_entry_is_the_checks_own [OF h1 h2 h3] unfolding lvl st .
qed

section \<open>C5: level parse errors\<close>




section \<open>C9: NewControls\<close>

lemma prepareChecks_spec:
  assumes "prepareChecks f cas cheap = Some cheap'"
  shows "length cheap' = length cheap \<and> map cAudit cheap' = map cAudit cheap \<and>
         (\<forall>a \<in> set cas. prepared f cheap' a) \<and>
         (\<forall>a. prepared f cheap a \<longrightarrow> prepared f cheap' a)"
  using assms
proof (induction cas arbitrary: cheap)
  case Nil
  then show ?case by simp
next
  case (Cons ca cas)
  from Cons.prems obtain check where d: "deref cheap ca = Some check"
    and rest: "prepareChecks f cas (cheap[ca := check\<lparr>cCommands := f (cAudit check)\<rparr>]) = Some cheap'"
    by (auto split: option.splits)
  let ?mid = "cheap[ca := check\<lparr>cCommands := f (cAudit check)\<rparr>]"
  from d have ca: "ca < length cheap" and check: "check = cheap ! ca"
    by (auto simp: deref_def split: if_splits)
  have aud: "map cAudit ?mid = map cAudit cheap"
    using ca check by (simp add: map_update list_update_same_conv)
  have mid_ca: "prepared f ?mid ca"
    using ca by (simp add: prepared_def)
  have keep: "prepared f ?mid a" if "prepared f cheap a" for a
    using that ca check by (cases "a = ca") (auto simp: prepared_def)
  from Cons.IH [OF rest] have IH: "length cheap' = length ?mid"
    "map cAudit cheap' = map cAudit ?mid"
    "\<forall>a \<in> set cas. prepared f cheap' a"
    "\<forall>a. prepared f ?mid a \<longrightarrow> prepared f cheap' a" by blast+
  show ?case
    using IH aud mid_ca keep by auto
qed

lemma prepareGroups_spec:
  assumes "prepareGroups f gheap gas cheap = Some cheap'"
  shows "length cheap' = length cheap \<and> map cAudit cheap' = map cAudit cheap \<and>
         (\<forall>ga \<in> set gas. \<exists>grp. deref gheap ga = Some grp \<and>
            (\<forall>ca \<in> set (gChecks grp). prepared f cheap' ca)) \<and>
         (\<forall>a. prepared f cheap a \<longrightarrow> prepared f cheap' a)"
  using assms
proof (induction gas arbitrary: cheap)
  case Nil
  then show ?case by simp
next
  case (Cons ga gas)
  from Cons.prems obtain grp mid where d: "deref gheap ga = Some grp"
    and one: "prepareChecks f (gChecks grp) cheap = Some mid"
    and rest: "prepareGroups f gheap gas mid = Some cheap'"
    by (auto split: option.splits)
  note P = prepareChecks_spec [OF one]
  note IH = Cons.IH [OF rest]
  have "\<forall>ca \<in> set (gChecks grp). prepared f cheap' ca"
    using P IH by blast
  with d have here: "\<exists>grp. deref gheap ga = Some grp \<and>
      (\<forall>ca \<in> set (gChecks grp). prepared f cheap' ca)" by blast
  show ?case
    using P IH here by auto
qed

lemma prepareChecks_live:
  "\<forall>ca \<in> set cas. ca < length cheap \<Longrightarrow> \<exists>cheap'. prepareChecks f cas cheap = Some cheap'"
proof (induction cas arbitrary: cheap)
  case Nil
  then show ?case by simp
next
  case (Cons ca cas)
  then show ?case by (simp add: deref_def)
qed

lemma prepareGroups_live:
  assumes "\<forall>ga \<in> set gas. ga < length gheap \<and>
      (\<forall>ca \<in> set (gChecks (gheap ! ga)). ca < length cheap)"
  shows "\<exists>cheap'. prepareGroups f gheap gas cheap = Some cheap'"
  using assms
proof (induction gas arbitrary: cheap)
  case Nil
  then show ?case by simp
next
  case (Cons ga gas)
  from Cons.prems have ga: "deref gheap ga = Some (gheap ! ga)"
    and cs: "\<forall>ca \<in> set (gChecks (gheap ! ga)). ca < length cheap"
    by (simp_all add: deref_def)
  from prepareChecks_live [OF cs] obtain mid
    where one: "prepareChecks f (gChecks (gheap ! ga)) cheap = Some mid" by blast
  from prepareChecks_spec [OF one] have len: "length mid = length cheap" by simp
  have "\<forall>ga \<in> set gas. ga < length gheap \<and>
      (\<forall>ca \<in> set (gChecks (gheap ! ga)). ca < length mid)"
    using Cons.prems len by simp
  from Cons.IH [OF this] obtain cheap' where "prepareGroups f gheap gas mid = Some cheap'"
    by blast
  with ga one show ?case by simp
qed

lemma prepareGroups_Some_live:
  assumes "prepareGroups f gheap gas cheap = Some cheap'"
  shows "\<forall>ga \<in> set gas. ga < length gheap \<and>
           (\<forall>ca \<in> set (gChecks (gheap ! ga)). ca < length cheap)"
proof (intro ballI conjI)
  note S = prepareGroups_spec [OF assms]
  fix ga assume ga: "ga \<in> set gas"
  with S obtain grp where d: "deref gheap ga = Some grp"
    and p: "\<forall>ca \<in> set (gChecks grp). prepared f cheap' ca" by blast
  from d show "ga < length gheap" by (simp add: deref_Some)
  fix ca assume "ca \<in> set (gChecks (gheap ! ga))"
  with d p have "prepared f cheap' ca" by (simp add: deref_Some)
  with S show "ca < length cheap" by (simp add: prepared_def)
qed

text \<open>
  C9, as claimed, fails, on two catalogs that parse and carry the requested node type.
  From a document with the key \<open>usercislevel\<close>, NewControls called with level "1" returns
  a Controls whose level is "2": the level is stored before decoding and the decoder
  overwrites it. From a document whose list of groups holds a \<open>null\<close>, NewControls
  returns nothing: the loop that prepares the commands panics on the nil group.
\<close>

theorem C9_counterexample:
  "demoDecoder docLevel (emptyControls\<lparr>UserCISLevel := ''1''\<rparr>, [], []) =
     Inr (emptyControls\<lparr>UserCISLevel := ''2'', Type := ''master''\<rparr>, [], []) \<and>
   NewControls demoDecoder demoTextToCommand ''master'' ''1'' docLevel =
     Inr (emptyControls\<lparr>UserCISLevel := ''2'', Type := ''master''\<rparr>, [], []) \<and>
   demoDecoder docNil (emptyControls\<lparr>UserCISLevel := ''1''\<rparr>, [], []) =
     Inr (emptyControls\<lparr>UserCISLevel := ''1'', Type := ''master'', Groups := [0]\<rparr>, [], []) \<and>
   NewControls demoDecoder demoTextToCommand ''master'' ''1'' docNil = Inl Panic"
  by (simp add: NewControls_def demoDecoder_def doc_defs emptyControls_def deref_def)

text \<open>
  C9, amended. yaml.Unmarshal is a parameter. (1) When the source parses and the parsed
  node-type tag differs from the requested type, NewControls returns the type-mismatch
  error and no Controls. (2) When the source parses, the types match and a group or check
  pointer of the decoded catalog is nil, NewControls panics. (3) When the source parses,
  the types match and no such pointer is nil, NewControls returns the decoded Controls,
  and every check of every group has Commands equal to textToCommand of its Audit text,
  the Audit text being the decoded one. (4) A Controls that NewControls returns is the one
  the decoder gives when it decodes into a Controls holding the caller-supplied level, its
  node type is the requested one, and it stores the caller-supplied level if decoding
  this source leaves the level field alone; a source that sets the field replaces the
  level.
\<close>

theorem C9_NewControls:
  "(Unmarshal inp (emptyControls\<lparr>UserCISLevel := level\<rparr>, [], []) = Inr (c, gheap, cheap) \<and>
    Type c \<noteq> t' \<longrightarrow>
      NewControls Unmarshal textToCommand t' level inp = Inl (Failed (TypeMismatchError t'))) \<and>
   (Unmarshal inpN (emptyControls\<lparr>UserCISLevel := levelN\<rparr>, [], []) = Inr (cN, gheapN, cheapN) \<and>
    Type cN = tN \<and> \<not> livePointers cN gheapN cheapN \<longrightarrow>
      NewControls Unmarshal textToCommand tN levelN inpN = Inl Panic) \<and>
   (Unmarshal inp (emptyControls\<lparr>UserCISLevel := level\<rparr>, [], []) = Inr (c, gheap, cheap) \<and>
    Type c = t \<and> livePointers c gheap cheap \<longrightarrow>
      (\<exists>cheap'. NewControls Unmarshal textToCommand t level inp = Inr (c, gheap, cheap') \<and>
         (\<forall>ga \<in> set (Groups c). \<forall>ca \<in> set (gChecks (gheap ! ga)).
            ca < length cheap' \<and>
            cAudit (cheap' ! ca) = cAudit (cheap ! ca) \<and>
            cCommands (cheap' ! ca) = textToCommand (cAudit (cheap' ! ca))))) \<and>
   (NewControls Unmarshal textToCommand tR levelR inpR = Inr (cR, gheapR, cheapR) \<longrightarrow>
      (\<exists>cheap0. Unmarshal inpR (emptyControls\<lparr>UserCISLevel := levelR\<rparr>, [], []) =
         Inr (cR, gheapR, cheap0)) \<and>
      Type cR = tR \<and>
      (keepsLevel Unmarshal inpR \<longrightarrow> UserCISLevel cR = levelR))"
proof -
  have A: "NewControls Unmarshal textToCommand t' level inp = Inl (Failed (TypeMismatchError t'))"
    if "Unmarshal inp (emptyControls\<lparr>UserCISLevel := level\<rparr>, [], []) = Inr (c, gheap, cheap)"
      "Type c \<noteq> t'"
    using that by (auto simp: NewControls_def Let_def)
  have N: "NewControls Unmarshal textToCommand tN levelN inpN = Inl Panic"
    if dec: "Unmarshal inpN (emptyControls\<lparr>UserCISLevel := levelN\<rparr>, [], []) = Inr (cN, gheapN, cheapN)"
      and ty: "Type cN = tN" and dead: "\<not> livePointers cN gheapN cheapN"
  proof (cases "prepareGroups textToCommand gheapN (Groups cN) cheapN")
    case None
    with dec ty show ?thesis by (simp add: NewControls_def Let_def)
  next
    case (Some cheap')
    from prepareGroups_Some_live [OF Some] dead show ?thesis
      by (simp add: livePointers_def)
  qed
  have B: "\<exists>cheap'. NewControls Unmarshal textToCommand t level inp = Inr (c, gheap, cheap') \<and>
               (\<forall>ga \<in> set (Groups c). \<forall>ca \<in> set (gChecks (gheap ! ga)).
                  ca < length cheap' \<and>
                  cAudit (cheap' ! ca) = cAudit (cheap ! ca) \<and>
                  cCommands (cheap' ! ca) = textToCommand (cAudit (cheap' ! ca)))"
    if dec: "Unmarshal inp (emptyControls\<lparr>UserCISLevel := level\<rparr>, [], []) = Inr (c, gheap, cheap)"
      and ty: "Type c = t" and live: "livePointers c gheap cheap"
  proof -
    from live have L: "\<forall>ga \<in> set (Groups c). ga < length gheap \<and>
        (\<forall>ca \<in> set (gChecks (gheap ! ga)). ca < length cheap)"
      by (simp add: livePointers_def)
    from prepareGroups_live [OF L] obtain cheap'
      where prep: "prepareGroups textToCommand gheap (Groups c) cheap = Some cheap'" by blast
    have ret: "NewControls Unmarshal textToCommand t level inp = Inr (c, gheap, cheap')"
      using dec ty prep by (simp add: NewControls_def Let_def)
    note S = prepareGroups_spec [OF prep]
    have cmds: "ca < length cheap' \<and> cAudit (cheap' ! ca) = cAudit (cheap ! ca) \<and>
        cCommands (cheap' ! ca) = textToCommand (cAudit (cheap' ! ca))"
      if ga: "ga \<in> set (Groups c)" and ca: "ca \<in> set (gChecks (gheap ! ga))" for ga ca
    proof -
      from L ga have "deref gheap ga = Some (gheap ! ga)" by (simp add: deref_def)
      with S ga ca have p: "prepared textToCommand cheap' ca" by fastforce
      from S have "map cAudit cheap' ! ca = map cAudit cheap ! ca" by simp
      moreover from p S have "ca < length cheap'" "ca < length cheap"
        by (simp_all add: prepared_def)
      ultimately have "cAudit (cheap' ! ca) = cAudit (cheap ! ca)" by simp
      with p show ?thesis by (simp add: prepared_def)
    qed
    from ret cmds show ?thesis by blast
  qed
  have R: "(\<exists>cheap0. Unmarshal inpR (emptyControls\<lparr>UserCISLevel := levelR\<rparr>, [], []) =
         Inr (cR, gheapR, cheap0)) \<and>
      Type cR = tR \<and>
      (keepsLevel Unmarshal inpR \<longrightarrow> UserCISLevel cR = levelR)"
    if ret: "NewControls Unmarshal textToCommand tR levelR inpR = Inr (cR, gheapR, cheapR)"
  proof -
    from ret obtain cheap0 where
      dec: "Unmarshal inpR (emptyControls\<lparr>UserCISLevel := levelR\<rparr>, [], []) = Inr (cR, gheapR, cheap0)"
      and ty: "Type cR = tR"
      by (auto simp: NewControls_def Let_def split: sum.splits if_splits option.splits)
    have "UserCISLevel cR = levelR" if "keepsLevel Unmarshal inpR"
      using that dec unfolding keepsLevel_def by fastforce
    with dec ty show ?thesis by blast
  qed
  from A have A': "Unmarshal inp (emptyControls\<lparr>UserCISLevel := level\<rparr>, [], []) = Inr (c, gheap, cheap) \<and>
    Type c \<noteq> t' \<longrightarrow>
      NewControls Unmarshal textToCommand t' level inp = Inl (Failed (TypeMismatchError t'))"
    by blast
  from N have N': "Unmarshal inpN (emptyControls\<lparr>UserCISLevel := levelN\<rparr>, [], []) = Inr (cN, gheapN, cheapN) \<and>
    Type cN = tN \<and> \<not> livePointers cN gheapN cheapN \<longrightarrow>
      NewControls Unmarshal textToCommand tN levelN inpN = Inl Panic"
    by blast
  from B have B': "Unmarshal inp (emptyControls\<lparr>UserCISLevel := level\<rparr>, [], []) = Inr (c, gheap, cheap) \<and>
    Type c = t \<and> livePointers c gheap cheap \<longrightarrow>
      (\<exists>cheap'. NewControls Unmarshal textToCommand t level inp = Inr (c, gheap, cheap') \<and>
         (\<forall>ga \<in> set (Groups c). \<forall>ca \<in> set (gChecks (gheap ! ga)).
            ca < length cheap' \<and>
            cAudit (cheap' ! ca) = cAudit (cheap ! ca) \<and>
            cCommands (cheap' ! ca) = textToCommand (cAudit (cheap' ! ca))))"
    by blast
  from R have R': "NewControls Unmarshal textToCommand tR levelR inpR = Inr (cR, gheapR, cheapR) \<longrightarrow>
      (\<exists>cheap0. Unmarshal inpR (emptyControls\<lparr>UserCISLevel := levelR\<rparr>, [], []) =
         Inr (cR, gheapR, cheap0)) \<and>
      Type cR = tR \<and>
      (keepsLevel Unmarshal inpR \<longrightarrow> UserCISLevel cR = levelR)"
    by blast
  from A' N' B' R' show ?thesis by (intro conjI)
qed

text \<open>
  Witness: the example document is a master catalog. Requested as "node" it is refused;
  requested as "master" at level "1" it is returned with the commands of both checks set
  and with level "1", the document having no key for the level. The document with a
  \<open>null\<close> group, requested as "master", makes NewControls panic.
\<close>

theorem C9_NewControls_witness:
  "demoDecoder docMaster (emptyControls\<lparr>UserCISLevel := ''1''\<rparr>, [], []) =
     Inr (emptyControls\<lparr>UserCISLevel := ''1'', ID := ''1'', Type := ''master'', Groups := [0]\<rparr>,
          [demoGroup [0, 1]], [demoCheck ''1.1'' ''1'', demoCheck ''1.2'' ''2'']) \<and>
   NewControls demoDecoder demoTextToCommand ''node'' ''1'' docMaster =
     Inl (Failed (TypeMismatchError ''node'')) \<and>
   \<not> livePointers (emptyControls\<lparr>UserCISLevel := ''1'', Type := ''master'', Groups := [0]\<rparr>)
       [] ([] :: string Check list) \<and>
   NewControls demoDecoder demoTextToCommand ''master'' ''1'' docNil = Inl Panic \<and>
   livePointers (emptyControls\<lparr>UserCISLevel := ''1'', ID := ''1'', Type := ''master'', Groups := [0]\<rparr>)
     [demoGroup [0, 1]] [demoCheck ''1.1'' ''1'', demoCheck ''1.2'' ''2''] \<and>
   (\<exists>cheap'. NewControls demoDecoder demoTextToCommand ''master'' ''1'' docMaster =
       Inr (emptyControls\<lparr>UserCISLevel := ''1'', ID := ''1'', Type := ''master'', Groups := [0]\<rparr>,
            [demoGroup [0, 1]], cheap') \<and>
     cCommands (cheap' ! 0) = [''ps -ef''] \<and> cCommands (cheap' ! 1) = [''ps -ef'']) \<and>
   keepsLevel demoDecoder docMaster \<and>
   (\<exists>c gheap cheap.
      NewControls demoDecoder demoTextToCommand ''master'' ''1'' docMaster = Inr (c, gheap, cheap) \<and>
      Type c = ''master'' \<and> UserCISLevel c = ''1'')"
proof -
  let ?c = "emptyControls\<lparr>UserCISLevel := ''1'', ID := ''1'', Type := ''master'', Groups := [0]\<rparr>"
  let ?gheap = "[demoGroup [0, 1]]"
  let ?cheap = "[demoCheck ''1.1'' ''1'', demoCheck ''1.2'' ''2'']"
  let ?cN = "emptyControls\<lparr>UserCISLevel := ''1'', Type := ''master'', Groups := [0]\<rparr>"
  have dec: "demoDecoder docMaster (emptyControls\<lparr>UserCISLevel := ''1''\<rparr>, [], []) =
      Inr (?c, ?gheap, ?cheap)"
    by (simp add: demoDecoder_def)
  have decN: "demoDecoder docNil (emptyControls\<lparr>UserCISLevel := ''1''\<rparr>, [], []) =
      Inr (?cN, [], [])"
    by (simp add: demoDecoder_def doc_defs)
  have keeps: "keepsLevel demoDecoder docMaster"
    by (auto simp: keepsLevel_def demoDecoder_def)
  have ty': "Type ?c \<noteq> ''node''" and ty: "Type ?c = ''master''" and tyN: "Type ?cN = ''master''"
    by simp_all
  have live: "livePointers ?c ?gheap ?cheap"
    by (simp add: livePointers_def demoGroup_def)
  have dead: "\<not> livePointers ?cN [] ([] :: string Check list)"
    by (simp add: livePointers_def)
  have T: "(demoDecoder docMaster (emptyControls\<lparr>UserCISLevel := ''1''\<rparr>, [], []) = Inr (?c, ?gheap, ?cheap) \<and>
      Type ?c \<noteq> ''node'' \<longrightarrow>
        NewControls demoDecoder demoTextToCommand ''node'' ''1'' docMaster =
          Inl (Failed (TypeMismatchError ''node''))) \<and>
     (demoDecoder docNil (emptyControls\<lparr>UserCISLevel := ''1''\<rparr>, [], []) = Inr (?cN, [], []) \<and>
      Type ?cN = ''master'' \<and> \<not> livePointers ?cN [] ([] :: string Check list) \<longrightarrow>
        NewControls demoDecoder demoTextToCommand ''master'' ''1'' docNil = Inl Panic) \<and>
     (demoDecoder docMaster (emptyControls\<lparr>UserCISLevel := ''1''\<rparr>, [], []) = Inr (?c, ?gheap, ?cheap) \<and>
      Type ?c = ''master'' \<and> livePointers ?c ?gheap ?cheap \<longrightarrow>
        (\<exists>cheap'. NewControls demoDecoder demoTextToCommand ''master'' ''1'' docMaster =
             Inr (?c, ?gheap, cheap') \<and>
           (\<forall>ga \<in> set (Groups ?c). \<forall>ca \<in> set (gChecks (?gheap ! ga)).
              ca < length cheap' \<and>
              cAudit (cheap' ! ca) = cAudit (?cheap ! ca) \<and>
              cCommands (cheap' ! ca) = demoTextToCommand (cAudit (cheap' ! ca))))) \<and>
     (NewControls demoDecoder demoTextToCommand ''master'' ''1'' docMaster = Inr (cR, gheapR, cheapR) \<longrightarrow>
        (\<exists>cheap0. demoDecoder docMaster (emptyControls\<lparr>UserCISLevel := ''1''\<rparr>, [], []) =
           Inr (cR, gheapR, cheap0)) \<and>
        Type cR = ''master'' \<and>
        (keepsLevel demoDecoder docMaster \<longrightarrow> UserCISLevel cR = ''1''))"
    for cR gheapR cheapR
    by (rule C9_NewControls)
  from T dec ty' have A: "NewControls demoDecoder demoTextToCommand ''node'' ''1'' docMaster =
      Inl (Failed (TypeMismatchError ''node''))" by blast
  from T decN tyN dead
  have N: "NewControls demoDecoder demoTextToCommand ''master'' ''1'' docNil = Inl Panic" by blast
  from T dec ty live obtain cheap' where
    ret: "NewControls demoDecoder demoTextToCommand ''master'' ''1'' docMaster =
      Inr (?c, ?gheap, cheap')" and
    all: "\<forall>ga \<in> set (Groups ?c). \<forall>ca \<in> set (gChecks (?gheap ! ga)).
        ca < length cheap' \<and> cAudit (cheap' ! ca) = cAudit (?cheap ! ca) \<and>
        cCommands (cheap' ! ca) = demoTextToCommand (cAudit (cheap' ! ca))"
    by blast
  have in0: "(0::nat) \<in> set (Groups ?c)" by simp
  have c0: "(0::nat) \<in> set (gChecks (?gheap ! 0))" and c1: "(1::nat) \<in> set (gChecks (?gheap ! 0))"
    by (simp_all add: demoGroup_def)
  from all in0 c0 have "cAudit (cheap' ! 0) = cAudit (?cheap ! 0)"
    "cCommands (cheap' ! 0) = demoTextToCommand (cAudit (cheap' ! 0))" by blast+
  then have k0: "cCommands (cheap' ! 0) = [''ps -ef'']"
    by (simp add: demoTextToCommand_def demoCheck_def)
  from all in0 c1 have "cAudit (cheap' ! 1) = cAudit (?cheap ! 1)"
    "cCommands (cheap' ! 1) = demoTextToCommand (cAudit (cheap' ! 1))" by blast+
  then have k1: "cCommands (cheap' ! 1) = [''ps -ef'']"
    by (simp add: demoTextToCommand_def demoCheck_def)
  have B: "\<exists>cheap'. NewControls demoDecoder demoTextToCommand ''master'' ''1'' docMaster =
       Inr (?c, ?gheap, cheap') \<and>
       cCommands (cheap' ! 0) = [''ps -ef''] \<and> cCommands (cheap' ! 1) = [''ps -ef'']"
    using ret k0 k1 by (intro exI conjI)
  from T [of ?c ?gheap cheap'] ret keeps
  have "Type ?c = ''master'' \<and> UserCISLevel ?c = ''1''" by blast
  with ret have R: "\<exists>c gheap cheap.
      NewControls demoDecoder demoTextToCommand ''master'' ''1'' docMaster = Inr (c, gheap, cheap) \<and>
      Type c = ''master'' \<and> UserCISLevel c = ''1''"
    by blast
  from dec A dead N live B keeps R show ?thesis by (intro conjI)
qed

section \<open>C2: group counters\<close>

text \<open>
  C2, as claimed, fails: after two successive \<open>RunGroup("1")\<close> on the example catalog,
  group "1" has two member checks, both in state PASS, and a pass counter of 4: the
  counters were not reset when the second run started.
\<close>

theorem C2_counterexample:
  "(case RunGroup auditPasses [''1''] (snd (RunGroup auditPasses [''1''] demoWorld)) of
      (r, s) \<Rightarrow>
        r = Returned \<lparr>Pass = 2, Fail = 0, Warn = 0, Info = 0, Skip = 0\<rparr> None \<and>
        Groups (controls s) = [0] \<and>
        map gChecks (groups s) = [[0, 1]] \<and>
        map cState (checks s) = [PASS, PASS] \<and>
        map gPass (groups s) = [4])"
  by (simp add: demo_defs run_defs)

text \<open>
  C2, amended. No run method resets the counters of a group. RunGroup adds to them, in the
  wrap-around arithmetic of a 64-bit Go \<open>int\<close>: whenever RunGroup returns, with or without
  an error, then for each of the five states, the counter of that state of the group at any
  address \<open>a\<close> is its value before the call plus the number of executions of this run that
  were made for the group at \<open>a\<close> and left their check in that state. When moreover the
  run returns no error, no group ID is requested twice and the catalog shares no pointer,
  that number is, for a group of the rebuilt \<open>controls.Groups\<close>, the number of the group's
  member checks that are in that state after the run, and zero for any other group: each
  counter equals its value before the call plus the count of member checks in its state.
  RunChecks (Check.Run leaving the check IDs alone) leaves every group that was there
  before the call as it was, counters included.
\<close>

theorem C2_group_counters_accumulate:
  assumes "RunGroup Run gids s = (Returned sm r, s')" and "terminal st"
  shows "counterAt st (groups s') a =
           counterAt st (groups s) a + of_nat (executionsIn (executions Run gids s) a st) \<and>
         (r = None \<and> distinct (effectiveGids gids s) \<and> noSharing s \<longrightarrow>
            counterAt st (groups s') a =
              counterAt st (groups s) a +
              (if a \<in> set (Groups (controls s')) then of_nat (membersIn st s' a) else 0)) \<and>
         (RunChecks Run ids q = (Returned smc None, q') \<and> keepsID Run \<and> b < length (groups q) \<longrightarrow>
            b < length (groups q') \<and> groups q' ! b = groups q ! b)"
proof -
  have M: "counterAt st (groups s') a =
      counterAt st (groups s) a +
      (if a \<in> set (Groups (controls s')) then of_nat (membersIn st s' a) else 0)"
    if "r = None" "distinct (effectiveGids gids s)" "noSharing s"
    using RunGroup_members [OF assms(1) [unfolded that(1)] that(2,3) assms(2)] .
  have C: "b < length (groups q') \<and> groups q' ! b = groups q ! b"
    if ret: "RunChecks Run ids q = (Returned smc None, q')" and keeps: "keepsID Run"
      and b: "b < length (groups q)"
  proof -
    from RunChecks_post(1) [OF ret keeps] have
      len: "length (groups q) \<le> length (groups q')" and
      old: "take (length (groups q)) (groups q') = groups q"
      by (auto simp: shellsInv_def)
    from b have "take (length (groups q)) (groups q') ! b = groups q' ! b" by simp
    with old len b show ?thesis by simp
  qed
  from M C RunGroup_counter [OF assms] show ?thesis by blast
qed

text \<open>
  Witness. \<open>RunGroup("1", "1")\<close> on the example catalog executes the two checks of group
  "1" twice, each time into PASS: the pass counter, zero before, is 4 after. \<open>RunGroup("1")\<close>
  on the example catalog with the pass counter at the largest \<open>int\<close> leaves both member
  checks in PASS and the counter, read as the signed number it is, at the largest \<open>int\<close>
  plus 2 wrapped around. \<open>RunChecks("1.1")\<close> on that catalog leaves the group as it was.
\<close>

theorem C2_group_counters_witness:
  "terminal PASS \<and>
   fst (RunGroup auditPasses [''1'', ''1''] demoWorld) =
     Returned \<lparr>Pass = 4, Fail = 0, Warn = 0, Info = 0, Skip = 0\<rparr> None \<and>
   executions auditPasses [''1'', ''1''] demoWorld =
     [(0, 0, PASS), (0, 1, PASS), (0, 0, PASS), (0, 1, PASS)] \<and>
   counterAt PASS (groups demoWorld) 0 = 0 \<and>
   counterAt PASS (groups (snd (RunGroup auditPasses [''1'', ''1''] demoWorld))) 0 = 4 \<and>
   fst (RunGroup auditPasses [''1''] fullWorld) =
     Returned \<lparr>Pass = 2, Fail = 0, Warn = 0, Info = 0, Skip = 0\<rparr> None \<and>
   distinct (effectiveGids [''1''] fullWorld) \<and> noSharing fullWorld \<and>
   Groups (controls (snd (RunGroup auditPasses [''1''] fullWorld))) = [0] \<and>
   membersIn PASS (snd (RunGroup auditPasses [''1''] fullWorld)) 0 = 2 \<and>
   sint (counterAt PASS (groups fullWorld) 0) = 9223372036854775807 \<and>
   sint (counterAt PASS (groups (snd (RunGroup auditPasses [''1''] fullWorld))) 0) =
     - 9223372036854775807 \<and>
   fst (RunChecks auditPasses [''1.1''] fullWorld) =
     Returned \<lparr>Pass = 1, Fail = 0, Warn = 0, Info = 0, Skip = 0\<rparr> None \<and>
   keepsID auditPasses \<and>
   groups (snd (RunChecks auditPasses [''1.1''] fullWorld)) ! 0 =
     (demoGroup [0, 1])\<lparr>gPass := 9223372036854775807\<rparr>"
proof -
  let ?p' = "snd (RunChecks auditPasses [''1.1''] fullWorld)"
  let ?pm = "\<lparr>Pass = 1, Fail = 0, Warn = 0, Info = 0, Skip = 0\<rparr>"
  have rc: "RunChecks auditPasses [''1.1''] fullWorld = (Returned ?pm None, ?p')"
    by (simp add: fullWorld_def demo_defs run_defs)
  have len: "(0::nat) < length (groups fullWorld)"
    by (simp add: fullWorld_def)
  have g0: "groups fullWorld ! 0 = (demoGroup [0, 1])\<lparr>gPass := 9223372036854775807\<rparr>"
    by (simp add: fullWorld_def)
  let ?s' = "snd (RunGroup auditPasses [''1'', ''1''] demoWorld)"
  let ?sm = "\<lparr>Pass = 4, Fail = 0, Warn = 0, Info = 0, Skip = 0\<rparr>"
  let ?q' = "snd (RunGroup auditPasses [''1''] fullWorld)"
  let ?qm = "\<lparr>Pass = 2, Fail = 0, Warn = 0, Info = 0, Skip = 0\<rparr>"
  have t: "terminal PASS" by (simp add: terminal_def)
  have h: "RunGroup auditPasses [''1'', ''1''] demoWorld = (Returned ?sm None, ?s')"
    by (simp add: demo_defs run_defs)
  have k: "RunGroup auditPasses [''1''] fullWorld = (Returned ?qm None, ?q')"
    by (simp add: fullWorld_def demo_defs run_defs)
  have log: "executions auditPasses [''1'', ''1''] demoWorld =
      [(0, 0, PASS), (0, 1, PASS), (0, 0, PASS), (0, 1, PASS)]"
    by (simp add: executions_def effectiveGids_def demo_defs run_defs)
  have before: "counterAt PASS (groups demoWorld) 0 = 0"
    by (simp add: counterAt_def deref_def demo_defs)
  have dg: "distinct (effectiveGids [''1''] fullWorld)"
    by (simp add: effectiveGids_def)
  have ns: "noSharing fullWorld"
    by (simp add: noSharing_def checksAt_def deref_def fullWorld_def demo_defs)
  have sel: "Groups (controls ?q') = [0]"
    by (simp add: fullWorld_def demo_defs run_defs)
  have mem: "membersIn PASS ?q' 0 = 2"
    by (simp add: membersIn_def stateAt_def checksAt_def fullWorld_def demo_defs run_defs)
  have full: "counterAt PASS (groups fullWorld) 0 = 9223372036854775807"
    by (simp add: counterAt_def deref_def fullWorld_def demo_defs)
  note T = C2_group_counters_accumulate [OF h t, of 0]
  from T have "counterAt PASS (groups ?s') 0 =
      counterAt PASS (groups demoWorld) 0 +
      of_nat (executionsIn (executions auditPasses [''1'', ''1''] demoWorld) 0 PASS)"
    by (rule conjunct1)
  then have after: "counterAt PASS (groups ?s') 0 = 4"
    unfolding before log by (simp add: executionsIn_def)
  note U = C2_group_counters_accumulate
    [OF k t, of 0 "[''1.1'']" fullWorld ?pm ?p' 0]
  from U rc auditPasses_keepsID len have "groups ?p' ! 0 = groups fullWorld ! 0"
    by blast
  then have kept: "groups ?p' ! 0 = (demoGroup [0, 1])\<lparr>gPass := 9223372036854775807\<rparr>"
    unfolding g0 .
  have r3: "fst (RunChecks auditPasses [''1.1''] fullWorld) = Returned ?pm None"
    by (subst rc) simp
  from U dg ns have "counterAt PASS (groups ?q') 0 =
      counterAt PASS (groups fullWorld) 0 +
      (if 0 \<in> set (Groups (controls ?q')) then of_nat (membersIn PASS ?q' 0) else 0)"
    by blast
  then have wrap: "counterAt PASS (groups ?q') 0 = 9223372036854775809"
    unfolding full sel mem by simp
  have s1: "sint (counterAt PASS (groups fullWorld) 0) = 9223372036854775807"
    unfolding full by simp
  have s2: "sint (counterAt PASS (groups ?q') 0) = - 9223372036854775807"
    unfolding wrap by simp
  have r1: "fst (RunGroup auditPasses [''1'', ''1''] demoWorld) = Returned ?sm None"
    by (subst h) simp
  have r2: "fst (RunGroup auditPasses [''1''] fullWorld) = Returned ?qm None"
    by (subst k) simp
  from t r1 log before after r2 dg ns sel mem s1 s2 r3 auditPasses_keepsID kept
  show ?thesis by (intro conjI)
qed

section \<open>C8: counter conservation\<close>

text \<open>
  C8. Every Check.Run ending in one of the five states PASS, FAIL, WARN, INFO, SKIP: when
  RunGroup returns without error, pass + fail + warn + info + skip of the returned Summary
  is the number of check executions it selects, the checks of every catalog group counted
  once for each requested group ID equal to the group's; when RunChecks returns (it has no
  error return), the sum is the number of check executions it selects, every check of
  every catalog group counted once for each requested check ID equal to the check's.
  For RunChecks the selection is read off the catalog as it is before the run, which
  takes that Check.Run leaves check IDs alone.
\<close>

theorem C8_counter_conservation:
  assumes "endsTerminal Run"
  shows "(RunGroup Run gids s = (Returned sm None, s') \<longrightarrow>
            total sm = int (executionsByGroup gids s)) \<and>
         (RunChecks Run ids q = (Returned sm' None, q') \<and> keepsID Run \<longrightarrow>
            total sm' = int (executionsByCheck ids q))"
  using RunGroup_counts(1) [OF _ assms] RunChecks_post(3) [OF _ _ assms] by blast

text \<open>
  Witness: on the example catalog \<open>RunGroup("1", "1")\<close> executes 4 checks and
  \<open>RunChecks("1.2", "1.1", "1.2")\<close> executes 3.
\<close>

theorem C8_counter_conservation_witness:
  "endsTerminal auditPasses \<and> keepsID auditPasses \<and>
   executionsByGroup [''1'', ''1''] demoWorld = 4 \<and>
   total \<lparr>Pass = 4, Fail = 0, Warn = 0, Info = 0, Skip = 0\<rparr> = 4 \<and>
   fst (RunGroup auditPasses [''1'', ''1''] demoWorld) =
     Returned \<lparr>Pass = 4, Fail = 0, Warn = 0, Info = 0, Skip = 0\<rparr> None \<and>
   executionsByCheck [''1.2'', ''1.1'', ''1.2''] demoWorld = 3 \<and>
   total \<lparr>Pass = 3, Fail = 0, Warn = 0, Info = 0, Skip = 0\<rparr> = 3 \<and>
   fst (RunChecks auditPasses [''1.2'', ''1.1'', ''1.2''] demoWorld) =
     Returned \<lparr>Pass = 3, Fail = 0, Warn = 0, Info = 0, Skip = 0\<rparr> None"
proof -
  let ?sm = "\<lparr>Pass = 4, Fail = 0, Warn = 0, Info = 0, Skip = 0\<rparr>"
  let ?sm' = "\<lparr>Pass = 3, Fail = 0, Warn = 0, Info = 0, Skip = 0\<rparr>"
  let ?s' = "snd (RunGroup auditPasses [''1'', ''1''] demoWorld)"
  let ?q' = "snd (RunChecks auditPasses [''1.2'', ''1.1'', ''1.2''] demoWorld)"
  have h1: "RunGroup auditPasses [''1'', ''1''] demoWorld = (Returned ?sm None, ?s')"
    by (simp add: demo_defs run_defs)
  have h2: "RunChecks auditPasses [''1.2'', ''1.1'', ''1.2''] demoWorld = (Returned ?sm' None, ?q')"
    by (simp add: demo_defs run_defs)
  note T = C8_counter_conservation [OF auditPasses_endsTerminal,
      of "[''1'', ''1'']" demoWorld ?sm ?s' "[''1.2'', ''1.1'', ''1.2'']" demoWorld ?sm' ?q']
  from T h1 have a: "total ?sm = int (executionsByGroup [''1'', ''1''] demoWorld)" by blast
  from T h2 auditPasses_keepsID
  have b: "total ?sm' = int (executionsByCheck [''1.2'', ''1.1'', ''1.2''] demoWorld)" by blast
  have ta: "total ?sm = 4" and tb: "total ?sm' = 3" by (simp_all add: total_def)
  from a ta have ea: "executionsByGroup [''1'', ''1''] demoWorld = 4" by simp
  from b tb have eb: "executionsByCheck [''1.2'', ''1.1'', ''1.2''] demoWorld = 3" by simp
  have r1: "fst (RunGroup auditPasses [''1'', ''1''] demoWorld) = Returned ?sm None"
    by (subst h1) simp
  have r2: "fst (RunChecks auditPasses [''1.2'', ''1.1'', ''1.2''] demoWorld) = Returned ?sm' None"
    by (subst h2) simp
  from auditPasses_endsTerminal auditPasses_keepsID ea ta r1 eb tb r2
  show ?thesis by (intro conjI)
qed

section \<open>C7: the rebuilt group list\<close>

lemma rebuilt_two_of_one_group:
  "foldl addToShells [] [(grp, a1), (grp, a2)] =
     [\<lparr>gID = gID grp, gPass = 0, gFail = 0, gWarn = 0, gSkip = 0, gInfo = 0,
       gText = gText grp, gChecks = [a1, a2]\<rparr>]"
  by (simp add: newShell_def)

text \<open>
  C7. After a RunGroup that returns without error, \<open>controls.Groups\<close> holds every catalog
  group once for each requested ID equal to its own: a group ID listed twice gives two
  entries for the group where the catalog had one, and the returned Summary counts the
  checks of every entry, so they are executed and aggregated once per match. After a
  RunChecks that returns (Check.Run leaving check IDs alone), \<open>controls.Groups\<close> holds
  distinct fresh shells, which are the shells the specification's grouping by first-seen
  group ID builds from the matches: no two of them bear the same group ID, and two
  matching checks of one group give exactly one shell, holding both checks.
\<close>

theorem C7_group_rebuild:
  "(RunGroup Run gids s = (Returned sm None, s') \<longrightarrow>
      Groups (controls s') =
        selectedGroups (groups s) (effectiveGids gids s) (Groups (controls s)) \<and>
      (\<forall>a. count_list (Groups (controls s')) a =
         count_list (Groups (controls s)) a *
           (case deref (groups s) a of
              None \<Rightarrow> 0
            | Some grp \<Rightarrow> count_list (effectiveGids gids s) (gID grp))) \<and>
      (endsTerminal Run \<longrightarrow> total sm = work (groups s) (Groups (controls s')))) \<and>
   (RunChecks Run ids q = (Returned sm' None, q') \<and> keepsID Run \<longrightarrow>
      map ((!) (groups q')) (Groups (controls q')) = rebuiltShells ids q \<and>
      distinct (map gID (rebuiltShells ids q)) \<and>
      distinct (Groups (controls q')) \<and>
      (\<forall>a \<in> set (Groups (controls q')). length (groups q) \<le> a \<and> a < length (groups q')) \<and>
      (\<forall>grp a1 a2.
         selectedChecks (groups q) (checks q) (effectiveIds ids q) (Groups (controls q)) =
           [(grp, a1), (grp, a2)] \<longrightarrow>
         rebuiltShells ids q =
           [\<lparr>gID = gID grp, gPass = 0, gFail = 0, gWarn = 0, gSkip = 0, gInfo = 0,
             gText = gText grp, gChecks = [a1, a2]\<rparr>]))"
proof -
  have A: "Groups (controls s') =
        selectedGroups (groups s) (effectiveGids gids s) (Groups (controls s)) \<and>
      (\<forall>a. count_list (Groups (controls s')) a =
         count_list (Groups (controls s)) a *
           (case deref (groups s) a of
              None \<Rightarrow> 0
            | Some grp \<Rightarrow> count_list (effectiveGids gids s) (gID grp))) \<and>
      (endsTerminal Run \<longrightarrow> total sm = work (groups s) (Groups (controls s')))"
    if ret: "RunGroup Run gids s = (Returned sm None, s')"
  proof -
    note sel = RunGroup_selected [OF ret]
    have cnt: "count_list (Groups (controls s')) a =
         count_list (Groups (controls s)) a *
           (case deref (groups s) a of
              None \<Rightarrow> 0
            | Some grp \<Rightarrow> count_list (effectiveGids gids s) (gID grp))" for a
      unfolding sel by (rule count_list_selectedGroups)
    have tot: "total sm = work (groups s) (Groups (controls s'))" if "endsTerminal Run"
      using RunGroup_counts(1) [OF ret that] unfolding sel
      by (simp add: executionsByGroup_def work_def)
    from sel cnt tot show ?thesis by blast
  qed
  have B: "map ((!) (groups q')) (Groups (controls q')) = rebuiltShells ids q \<and>
      distinct (map gID (rebuiltShells ids q)) \<and>
      distinct (Groups (controls q')) \<and>
      (\<forall>a \<in> set (Groups (controls q')). length (groups q) \<le> a \<and> a < length (groups q')) \<and>
      (\<forall>grp a1 a2.
         selectedChecks (groups q) (checks q) (effectiveIds ids q) (Groups (controls q)) =
           [(grp, a1), (grp, a2)] \<longrightarrow>
         rebuiltShells ids q =
           [\<lparr>gID = gID grp, gPass = 0, gFail = 0, gWarn = 0, gSkip = 0, gInfo = 0,
             gText = gText grp, gChecks = [a1, a2]\<rparr>])"
    if ret: "RunChecks Run ids q = (Returned sm' None, q')" and keeps: "keepsID Run"
  proof -
    from RunChecks_post(1) [OF ret keeps] obtain m where
      inv: "shellsInv (groups q) (Groups (controls q')) m (groups q')" by blast
    note abs = RunChecks_post(2) [OF ret keeps]
    from shellsInv_distinct_ids [OF inv] abs
    have d1: "distinct (map gID (rebuiltShells ids q))" by simp
    from inv have d2: "distinct (Groups (controls q'))"
      and rng: "\<forall>a \<in> set (Groups (controls q')). length (groups q) \<le> a \<and> a < length (groups q')"
      by (simp_all add: shellsInv_def)
    have two: "rebuiltShells ids q =
           [\<lparr>gID = gID grp, gPass = 0, gFail = 0, gWarn = 0, gSkip = 0, gInfo = 0,
             gText = gText grp, gChecks = [a1, a2]\<rparr>]"
      if "selectedChecks (groups q) (checks q) (effectiveIds ids q) (Groups (controls q)) =
           [(grp, a1), (grp, a2)]" for grp a1 a2
      unfolding rebuiltShells_def that by (rule rebuilt_two_of_one_group)
    from abs d1 d2 rng two show ?thesis by blast
  qed
  from A B show ?thesis by blast
qed


text \<open>
  Witness: on the example catalog \<open>RunGroup("1", "1")\<close> rebuilds the list as group "1"
  twice, and \<open>RunChecks("1.1", "1.2")\<close> as one shell of group "1" holding both checks.
\<close>

theorem C7_group_rebuild_witness:
  "endsTerminal auditPasses \<and> keepsID auditPasses \<and>
   fst (RunGroup auditPasses [''1'', ''1''] demoWorld) =
     Returned \<lparr>Pass = 4, Fail = 0, Warn = 0, Info = 0, Skip = 0\<rparr> None \<and>
   Groups (controls (snd (RunGroup auditPasses [''1'', ''1''] demoWorld))) = [0, 0] \<and>
   count_list (Groups (controls (snd (RunGroup auditPasses [''1'', ''1''] demoWorld)))) 0 = 2 \<and>
   work (groups demoWorld) (Groups (controls (snd (RunGroup auditPasses [''1'', ''1''] demoWorld)))) = 4 \<and>
   fst (RunChecks auditPasses [''1.1'', ''1.2''] demoWorld) =
     Returned \<lparr>Pass = 2, Fail = 0, Warn = 0, Info = 0, Skip = 0\<rparr> None \<and>
   Groups (controls (snd (RunChecks auditPasses [''1.1'', ''1.2''] demoWorld))) = [1] \<and>
   length (groups demoWorld) \<le> 1 \<and>
   1 < length (groups (snd (RunChecks auditPasses [''1.1'', ''1.2''] demoWorld))) \<and>
   map ((!) (groups (snd (RunChecks auditPasses [''1.1'', ''1.2''] demoWorld))))
       (Groups (controls (snd (RunChecks auditPasses [''1.1'', ''1.2''] demoWorld)))) =
     [\<lparr>gID = ''1'', gPass = 0, gFail = 0, gWarn = 0, gSkip = 0, gInfo = 0,
       gText = ''Master Node'', gChecks = [0, 1]\<rparr>]"
proof -
  let ?sm = "\<lparr>Pass = 4, Fail = 0, Warn = 0, Info = 0, Skip = 0\<rparr>"
  let ?sm' = "\<lparr>Pass = 2, Fail = 0, Warn = 0, Info = 0, Skip = 0\<rparr>"
  let ?s' = "snd (RunGroup auditPasses [''1'', ''1''] demoWorld)"
  let ?q' = "snd (RunChecks auditPasses [''1.1'', ''1.2''] demoWorld)"
  have h1: "RunGroup auditPasses [''1'', ''1''] demoWorld = (Returned ?sm None, ?s')"
    by (simp add: demo_defs run_defs)
  have h2: "RunChecks auditPasses [''1.1'', ''1.2''] demoWorld = (Returned ?sm' None, ?q')"
    by (simp add: demo_defs run_defs)
  note T = C7_group_rebuild
    [of auditPasses "[''1'', ''1'']" demoWorld ?sm ?s' "[''1.1'', ''1.2'']" demoWorld ?sm' ?q']
  from T h1 have "Groups (controls ?s') =
      selectedGroups (groups demoWorld) (effectiveGids [''1'', ''1''] demoWorld)
        (Groups (controls demoWorld))" by blast
  also have "\<dots> = [0, 0]"
    by (simp add: effectiveGids_def deref_def demo_defs)
  finally have a: "Groups (controls ?s') = [0, 0]" .
  from T h1 have "count_list (Groups (controls ?s')) 0 =
      count_list (Groups (controls demoWorld)) 0 *
        (case deref (groups demoWorld) 0 of
           None \<Rightarrow> 0
         | Some grp \<Rightarrow> count_list (effectiveGids [''1'', ''1''] demoWorld) (gID grp))" by blast
  also have "\<dots> = 2"
    by (simp add: effectiveGids_def deref_def demo_defs)
  finally have a2: "count_list (Groups (controls ?s')) 0 = 2" .
  from T h1 auditPasses_endsTerminal
  have "total ?sm = work (groups demoWorld) (Groups (controls ?s'))" by blast
  then have a3: "work (groups demoWorld) (Groups (controls ?s')) = 4"
    by (simp add: total_def)
  have sel: "selectedChecks (groups demoWorld) (checks demoWorld)
      (effectiveIds [''1.1'', ''1.2''] demoWorld) (Groups (controls demoWorld)) =
      [(demoGroup [0, 1], 0), (demoGroup [0, 1], 1)]"
    by (simp add: effectiveIds_def groupMatches_def checkMatches_def deref_def demo_defs)
  from T h2 auditPasses_keepsID
  have abs: "map ((!) (groups ?q')) (Groups (controls ?q')) =
      rebuiltShells [''1.1'', ''1.2''] demoWorld"
    and rng: "\<forall>a \<in> set (Groups (controls ?q')).
      length (groups demoWorld) \<le> a \<and> a < length (groups ?q')"
    and two: "\<forall>grp a1 a2.
         selectedChecks (groups demoWorld) (checks demoWorld)
           (effectiveIds [''1.1'', ''1.2''] demoWorld) (Groups (controls demoWorld)) =
           [(grp, a1), (grp, a2)] \<longrightarrow>
         rebuiltShells [''1.1'', ''1.2''] demoWorld =
           [\<lparr>gID = gID grp, gPass = 0, gFail = 0, gWarn = 0, gSkip = 0, gInfo = 0,
             gText = gText grp, gChecks = [a1, a2]\<rparr>]"
    by blast+
  from two sel have "rebuiltShells [''1.1'', ''1.2''] demoWorld =
      [\<lparr>gID = gID (demoGroup [0, 1]), gPass = 0, gFail = 0, gWarn = 0, gSkip = 0, gInfo = 0,
        gText = gText (demoGroup [0, 1]), gChecks = [0, 1]\<rparr>]" by blast
  with abs have b: "map ((!) (groups ?q')) (Groups (controls ?q')) =
      [\<lparr>gID = ''1'', gPass = 0, gFail = 0, gWarn = 0, gSkip = 0, gInfo = 0,
        gText = ''Master Node'', gChecks = [0, 1]\<rparr>]"
    by (simp add: demoGroup_def)
  have b1: "Groups (controls ?q') = [1]"
    by (simp add: demo_defs run_defs)
  from rng have b2: "length (groups demoWorld) \<le> 1" and b3: "1 < length (groups ?q')"
    unfolding b1 by simp_all
  have r1: "fst (RunGroup auditPasses [''1'', ''1''] demoWorld) = Returned ?sm None"
    by (subst h1) simp
  have r2: "fst (RunChecks auditPasses [''1.1'', ''1.2''] demoWorld) = Returned ?sm' None"
    by (subst h2) simp
  from auditPasses_endsTerminal auditPasses_keepsID r1 a a2 a3 r2 b1 b2 b3 b
  show ?thesis by (intro conjI)
qed

section \<open>C10: RunChecks has no error return\<close>

lemma runChecksMatch_not_Failed:
  "runChecksMatch Run ga ca g m s = (Some (Failed e), g', m', s') \<Longrightarrow> False"
  by (simp add: runChecksMatch_def Let_def split: option.splits prod.splits)

lemma runChecksIds_not_Failed:
  "runChecksIds Run ga ca ids g m s = (Some (Failed e), g', m', s') \<Longrightarrow> False"
proof (induction ids arbitrary: g m s)
  case Nil
  then show ?case by simp
next
  case (Cons i ids)
  then show ?case
    by (auto split: option.splits prod.splits if_splits dest: runChecksMatch_not_Failed)
qed

lemma runChecksOfGroup_not_Failed:
  "runChecksOfGroup Run ids ga cas g m s = (Some (Failed e), g', m', s') \<Longrightarrow> False"
proof (induction cas arbitrary: g m s)
  case Nil
  then show ?case by simp
next
  case (Cons ca cas)
  then show ?case
    by (auto split: option.splits prod.splits dest: runChecksIds_not_Failed)
qed

lemma runChecksGroups_not_Failed:
  "runChecksGroups Run ids old gas g m s = (Some (Failed e), g', m', s') \<Longrightarrow> False"
proof (induction gas arbitrary: g m s)
  case Nil
  then show ?case by simp
next
  case (Cons ga gas)
  then show ?case
    by (auto split: option.splits prod.splits dest: runChecksOfGroup_not_Failed)
qed

lemma RunChecks_no_error: "fst (RunChecks Run ids s) \<noteq> Returned sm (Some e)"
  by (auto simp: RunChecks_def Let_def split: option.splits prod.splits abort.splits
      dest: runChecksGroups_not_Failed)

lemma summarize_setLevel:
  "summarize (c\<lparr>UserCISLevel := l\<rparr>) check = (summarize c check)\<lparr>UserCISLevel := l\<rparr>"
  by (simp add: summarize_def split: State.splits)

lemma summarizeLevel_setLevel:
  "summarizeLevel (c\<lparr>UserCISLevel := l\<rparr>) check =
     map_option (\<lambda>c'. c'\<lparr>UserCISLevel := l\<rparr>) (summarizeLevel c check)"
  by (simp add: summarizeLevel_def Let_def split: State.splits option.splits)

lemma runChecksMatch_setLevel:
  "runChecksMatch Run ga ca g m (setLevel l s) =
     (case runChecksMatch Run ga ca g m s of (a, g', m', s') \<Rightarrow> (a, g', m', setLevel l s'))"
  by (simp add: runChecksMatch_def setLevel_def Let_def summarize_setLevel summarizeLevel_setLevel
      split: option.splits prod.splits)

lemma checks_setLevel [simp]: "checks (setLevel l s) = checks s"
  and groups_setLevel [simp]: "groups (setLevel l s) = groups s"
  by (simp_all add: setLevel_def)

lemma runChecksIds_setLevel:
  "runChecksIds Run ga ca ids g m (setLevel l s) =
     (case runChecksIds Run ga ca ids g m s of (a, g', m', s') \<Rightarrow> (a, g', m', setLevel l s'))"
proof (induction ids arbitrary: g m s)
  case Nil
  show ?case by simp
next
  case (Cons i ids)
  show ?case
    by (simp add: Cons.IH runChecksMatch_setLevel split: option.splits prod.splits)
qed

lemma runChecksOfGroup_setLevel:
  "runChecksOfGroup Run ids ga cas g m (setLevel l s) =
     (case runChecksOfGroup Run ids ga cas g m s of (a, g', m', s') \<Rightarrow> (a, g', m', setLevel l s'))"
proof (induction cas arbitrary: g m s)
  case Nil
  show ?case by simp
next
  case (Cons ca cas)
  show ?case
    by (simp add: Cons.IH runChecksIds_setLevel split: option.splits prod.splits)
qed

lemma runChecksGroups_setLevel:
  "runChecksGroups Run ids old gas g m (setLevel l s) =
     (case runChecksGroups Run ids old gas g m s of (a, g', m', s') \<Rightarrow> (a, g', m', setLevel l s'))"
proof (induction gas arbitrary: g m s)
  case Nil
  show ?case by simp
next
  case (Cons ga gas)
  show ?case
    by (simp add: Cons.IH runChecksOfGroup_setLevel split: option.splits prod.splits)
qed

lemma RunChecks_setLevel:
  "RunChecks Run ids (setLevel l s) = (case RunChecks Run ids s of (r, s') \<Rightarrow> (r, setLevel l s'))"
proof -
  have reset: "(setLevel l s)\<lparr>controls := resetSummaries (controls (setLevel l s))\<rparr> =
      setLevel l (s\<lparr>controls := resetSummaries (controls s)\<rparr>)"
    by (simp add: setLevel_def resetSummaries_def)
  have G: "Groups (controls (setLevel l x)) = Groups (controls x)" for x :: "('a, 'b) world"
    by (simp add: setLevel_def)
  have S: "Summary (controls (setLevel l x)) = Summary (controls x)" for x :: "('a, 'b) world"
    by (simp add: setLevel_def)
  have U: "(setLevel l x)\<lparr>controls := (controls (setLevel l x))\<lparr>Groups := gg\<rparr>\<rparr> =
      setLevel l (x\<lparr>controls := (controls x)\<lparr>Groups := gg\<rparr>\<rparr>)" for x :: "('a, 'b) world" and gg
    by (simp add: setLevel_def)
  show ?thesis
    unfolding RunChecks_def Let_def reset
    by (simp add: G S U runChecksGroups_setLevel split: option.splits prod.splits abort.splits)
qed

text \<open>
  C10. RunChecks never returns a non-nil error: whatever the input, its outcome is a return
  with a nil error or a panic, never a return with an error. It does not read the
  user-selected level either: with any other level \<open>l\<close> on the Controls it gives the same
  outcome and the same final memory (but for that level field), so no level is parsed and
  no check is gated by it.
\<close>

theorem C10_RunChecks_returns_no_error:
  "(\<forall>sm e. fst (RunChecks Run ids s) \<noteq> Returned sm (Some e)) \<and>
   RunChecks Run ids (setLevel l s) = (case RunChecks Run ids s of (r, s') \<Rightarrow> (r, setLevel l s'))"
  using RunChecks_no_error [of Run ids s] RunChecks_setLevel [of Run ids l s] by blast

end
